theory Spec2Isabelle
  imports Complex_Main "HOL-Library.Signed_Division" "HOL-Library.Sublist"
begin

section \<open>Tile copy through a staging buffer: \<open>src/tma/tma_copy.h\<close>\<close>

text \<open>
  The header holds one device kernel, \<open>copyTMAKernel\<close>, and one host function,
  \<open>copy_host_tma_load_and_store_kernel\<close>. The host function fills a row-major
  \<open>M \<times> N\<close> array of \<open>float\<close> with \<open>float(i)\<close>, builds a load and a store descriptor for
  tiles of \<open>TILE_M \<times> TILE_N\<close> elements, launches one block per tile \<open>iterations\<close> times
  and counts the elements of the destination that differ from the source.

  Integers of the host function are C++ \<open>int\<close>; they are modelled as \<open>int\<close>, the
  conversions to the unsigned types of the source written out. The element count
  \<open>M * N\<close> that sizes the buffers is computed in 32 bits, wrapping around
  (\<open>int_mul\<close>). Signed overflow is undefined in C++: theorems about the host function
  state the range their arithmetic needs.
\<close>

subsection \<open>Elements\<close>

text \<open>
  \<open>using Element = float\<close>. Every \<open>float\<close> the program creates is \<open>float(i)\<close> for an index
  \<open>i\<close>, or the zero a \<open>thrust::host_vector\<close> is filled with; all of them are integers, so
  an element is modelled by its exact value. \<open>float_of_size_t\<close> is the conversion
  \<open>float(i)\<close> of line 173: exact below \<open>2^24\<close>, round-to-nearest-even on the 24-bit
  significand above.
\<close>

type_synonym Element = int

fun bit_length :: "nat \<Rightarrow> nat" where
  "bit_length n = (if n = 0 then 0 else Suc (bit_length (n div 2)))"

declare bit_length.simps [simp del]

definition float_of_size_t :: "nat \<Rightarrow> Element" where
  "float_of_size_t i =
     (if i < 2 ^ 24 then int i
      else let e = bit_length i - 24;
               q = i div 2 ^ e;
               r = i mod 2 ^ e;
               h = 2 ^ (e - 1)
           in int ((if h < r \<or> (r = h \<and> odd q) then q + 1 else q) * 2 ^ e))"

definition sizeof_Element :: nat where
  "sizeof_Element = 4"

subsection \<open>Shapes, layouts and tiles\<close>

type_synonym shape = "nat \<times> nat"
type_synonym coord = "nat \<times> nat"

definition size_shape :: "shape \<Rightarrow> nat" where
  "size_shape s = fst s * snd s"

text \<open>\<open>make_layout(shape, LayoutRight{})\<close>: the row-major offset of a coordinate.\<close>

definition LayoutRight :: "shape \<Rightarrow> coord \<Rightarrow> nat" where
  "LayoutRight s c = fst c * snd s + snd c"

text \<open>The coordinate of the \<open>k\<close>-th element of a row-major layout (the inverse of
  \<open>LayoutRight\<close> on a shape with columns).\<close>

definition idx2crd :: "shape \<Rightarrow> nat \<Rightarrow> coord" where
  "idx2crd s k = (k div snd s, k mod snd s)"

definition in_bounds :: "shape \<Rightarrow> coord \<Rightarrow> bool" where
  "in_bounds s c = (fst c < fst s \<and> snd c < snd s)"

text \<open>\<open>local_tile(m, tileShape, blkCoord)\<close> of lines 108 and 142: the global coordinate
  of element \<open>ij\<close> of the tile at block coordinate \<open>blk\<close>.\<close>

definition local_tile :: "shape \<Rightarrow> coord \<Rightarrow> coord \<Rightarrow> coord" where
  "local_tile tileShape blk ij =
     (fst blk * fst tileShape + fst ij, snd blk * snd tileShape + snd ij)"

subsection \<open>The bulk-copy engine\<close>

text \<open>
  Modelled from the spec: the copy engine behind \<open>make_tma_copy\<close> and \<open>cute::copy\<close>,
  which are library code outside this header. A load fetches one tile-shaped region of
  the source view into the staging buffer, a store writes one such region back into the
  destination view, and boundary tiles are "handled by the underlying copy engine's own
  bounds-aware addressing": an element of the tile whose global coordinate lies outside
  the array is not read from (the staging slot gets the fill value, zero) and not
  written to.
\<close>

definition tma_load :: "shape \<Rightarrow> shape \<Rightarrow> Element list \<Rightarrow> coord \<Rightarrow> Element list" where
  "tma_load gmemShape tileShape src blk =
     map (\<lambda>k. let g = local_tile tileShape blk (idx2crd tileShape k)
              in if in_bounds gmemShape g then src ! LayoutRight gmemShape g else 0)
         [0..<size_shape tileShape]"

definition tma_store_elem ::
  "shape \<Rightarrow> shape \<Rightarrow> coord \<Rightarrow> Element list \<Rightarrow> nat \<Rightarrow> Element list \<Rightarrow> Element list" where
  "tma_store_elem gmemShape tileShape blk smem k dst =
     (let g = local_tile tileShape blk (idx2crd tileShape k)
      in if in_bounds gmemShape g then dst[LayoutRight gmemShape g := smem ! k] else dst)"

definition tma_store ::
  "shape \<Rightarrow> shape \<Rightarrow> coord \<Rightarrow> Element list \<Rightarrow> Element list \<Rightarrow> Element list" where
  "tma_store gmemShape tileShape blk smem dst =
     fold (tma_store_elem gmemShape tileShape blk smem) [0..<size_shape tileShape] dst"

text \<open>The element offsets of the destination that the store of one tile writes, in
  the order it writes them, and the bytes they occupy.\<close>

definition store_offsets :: "shape \<Rightarrow> shape \<Rightarrow> coord \<Rightarrow> nat list" where
  "store_offsets gmemShape tileShape blk =
     map (\<lambda>k. LayoutRight gmemShape (local_tile tileShape blk (idx2crd tileShape k)))
       (filter (\<lambda>k. in_bounds gmemShape (local_tile tileShape blk (idx2crd tileShape k)))
          [0..<size_shape tileShape])"

definition store_bytes :: "shape \<Rightarrow> shape \<Rightarrow> coord \<Rightarrow> nat set" where
  "store_bytes gmemShape tileShape blk =
     (\<Union>p \<in> set (store_offsets gmemShape tileShape blk).
        {sizeof_Element * p ..< sizeof_Element * p + sizeof_Element})"

subsection \<open>Sizes of the staging storage\<close>

text \<open>
  Modelled from the spec: \<open>ArrayEngine\<close> is library code and \<open>SharedStorageTMA\<close> is
  declared in \<open>shared_storage.h\<close>, neither is in this header. The spec gives their
  sizes: the staging storage is "sized exactly to hold one tile
  (\<open>rows*cols*elementSize\<close> bytes), plus one barrier instance", its byte size is the
  transaction size, and the scratch size is "\<open>sizeof(element)*tileRows*tileCols\<close> plus
  fixed barrier overhead". The overhead is a parameter.
\<close>

definition sizeof_ArrayEngine :: "nat \<Rightarrow> nat \<Rightarrow> nat" where
  "sizeof_ArrayEngine elem_bytes n = elem_bytes * n"

definition sizeof_SharedStorageTMA :: "nat \<Rightarrow> nat \<Rightarrow> nat \<Rightarrow> nat" where
  "sizeof_SharedStorageTMA barrier_bytes elem_bytes n =
     sizeof_ArrayEngine elem_bytes n + barrier_bytes"

text \<open>Lines 93-94, with \<open>SmemLayout\<close> the row-major layout of the tile shape (line
  194), whose \<open>size\<close> is the number of its elements.\<close>

definition kTmaTransactionBytes :: "shape \<Rightarrow> nat" where
  "kTmaTransactionBytes tileShape = sizeof_ArrayEngine sizeof_Element (size_shape tileShape)"

text \<open>Line 208.\<close>

definition smem_size :: "nat \<Rightarrow> shape \<Rightarrow> nat" where
  "smem_size barrier_bytes tileShape =
     sizeof_SharedStorageTMA barrier_bytes sizeof_Element (size_shape tileShape)"

subsection \<open>The launch grid\<close>

text \<open>\<open>cute::ceil_div\<close> on \<open>int\<close>: \<open>(a + b - 1) / b\<close> with the truncating division of
  C++. Division by zero is undefined there; the host function below stops before it.\<close>

definition ceil_div :: "int \<Rightarrow> int \<Rightarrow> int" where
  "ceil_div a b = (a + b - 1) sdiv b"

definition INT_MAX :: int where
  "INT_MAX = 2 ^ 31 - 1"

record dim3 =
  dim_x :: nat
  dim_y :: nat
  dim_z :: nat

text \<open>The constructor \<open>dim3(unsigned x = 1, unsigned y = 1, unsigned z = 1)\<close> applied
  to \<open>int\<close> arguments: each is converted to \<open>unsigned\<close>.\<close>

definition unsigned_of_int :: "int \<Rightarrow> nat" where
  "unsigned_of_int v = nat (v mod 2 ^ 32)"

definition dim3_2 :: "int \<Rightarrow> int \<Rightarrow> dim3" where
  "dim3_2 a b = \<lparr>dim_x = unsigned_of_int a, dim_y = unsigned_of_int b, dim_z = 1\<rparr>"

definition dim3_1 :: "int \<Rightarrow> dim3" where
  "dim3_1 a = \<lparr>dim_x = unsigned_of_int a, dim_y = 1, dim_z = 1\<rparr>"

text \<open>Line 205.\<close>

definition gridDim_of :: "int \<Rightarrow> int \<Rightarrow> int \<Rightarrow> int \<Rightarrow> dim3" where
  "gridDim_of TILE_M TILE_N M N = dim3_2 (ceil_div M TILE_M) (ceil_div N TILE_N)"

text \<open>The block indices of a launch: every \<open>blockIdx\<close> below \<open>gridDim\<close> in each
  component.\<close>

definition blocks_of :: "dim3 \<Rightarrow> dim3 list" where
  "blocks_of g =
     concat (map (\<lambda>bx. concat (map (\<lambda>by. map (\<lambda>bz. \<lparr>dim_x = bx, dim_y = by, dim_z = bz\<rparr>)
                                            [0..<dim_z g])
                                  [0..<dim_y g]))
                 [0..<dim_x g])"

text \<open>Line 107: \<open>make_coord(blockIdx.x, blockIdx.y)\<close>.\<close>

definition blkCoord :: "dim3 \<Rightarrow> coord" where
  "blkCoord blockIdx = (dim_x blockIdx, dim_y blockIdx)"

subsection \<open>The kernel, as one thread runs it\<close>

text \<open>
  The operations a thread of \<open>copyTMAKernel\<close> issues. \<open>tma_store_arrive\<close> and
  \<open>tma_store_wait\<close> are the two calls of lines 149 and 151, which the kernel has only
  as comments.
\<close>

datatype instr =
    prefetch_tma_descriptor_load
  | prefetch_tma_descriptor_store
  | mbarrier_init nat
  | mbarrier_arrive_and_expect_tx nat
  | copy_tmaLoad coord
  | syncthreads
  | mbarrier_wait nat
  | fence_view_async_shared
  | copy_tmaStore coord
  | tma_store_arrive
  | tma_store_wait nat

text \<open>Lines 91-92. \<open>elect_one_sync\<close> is true in one lane of each warp; which lane is the
  hardware's choice, the parameter \<open>elected\<close> (warp index to lane).\<close>

definition canonical_warp_idx_sync :: "nat \<Rightarrow> nat" where
  "canonical_warp_idx_sync tid = tid div 32"

definition elect_one_sync :: "(nat \<Rightarrow> nat) \<Rightarrow> nat \<Rightarrow> bool" where
  "elect_one_sync elected tid = (tid mod 32 = elected (tid div 32))"

text \<open>Lines 99-151: the operations of thread \<open>tid\<close> of block \<open>blockIdx\<close>, in program
  order. The kernel has no loop and its only branches are the three guards
  \<open>warp_idx == 0 && lane_predicate\<close>.\<close>

definition copyTMAKernel :: "shape \<Rightarrow> (nat \<Rightarrow> nat) \<Rightarrow> dim3 \<Rightarrow> nat \<Rightarrow> instr list" where
  "copyTMAKernel tileShape elected blockIdx tid =
     (let warp_idx = canonical_warp_idx_sync tid;
          lane_predicate = elect_one_sync elected tid;
          blk = blkCoord blockIdx
      in (if warp_idx = 0 \<and> lane_predicate
          then [prefetch_tma_descriptor_load, prefetch_tma_descriptor_store] else [])
         @ (if warp_idx = 0 \<and> lane_predicate
            then [mbarrier_init 1,
                  mbarrier_arrive_and_expect_tx (kTmaTransactionBytes tileShape),
                  copy_tmaLoad blk]
            else [])
         @ [syncthreads, mbarrier_wait 0, fence_view_async_shared]
         @ (if warp_idx = 0 \<and> lane_predicate then [copy_tmaStore blk] else []))"

subsection \<open>One block: threads, transaction barrier and copy engine\<close>

text \<open>
  The transaction barrier of section 3 of the spec: the arrival count fixed at \<open>init\<close>, the
  arrivals still pending, the bytes still expected, and the phase (0 or 1). A phase
  completes when no arrival is pending and no byte is expected.
\<close>

record mbar =
  arrive_count :: nat
  pending :: nat
  tx_count :: int
  phase :: nat

definition completes :: "mbar \<Rightarrow> bool" where
  "completes m = (pending m = 0 \<and> tx_count m = 0)"

definition phase_check :: "mbar \<Rightarrow> mbar" where
  "phase_check m =
     (if completes m then m\<lparr>pending := arrive_count m, phase := 1 - phase m\<rparr> else m)"

datatype event =
    issued nat instr
  | released
  | loaded
  | barrier_satisfied
  | stored

record unit_ctx =
  u_gmemShape :: shape
  u_tileShape :: shape
  u_src :: "Element list"
  u_blockIdx :: dim3
  u_threads :: nat
  u_elected :: "nat \<Rightarrow> nat"

record unit_state =
  pc :: "nat list"
  mbarrier :: "mbar option"
  sS :: "Element list"
  load_inflight :: "coord option"
  store_inflight :: "coord option"
  gD :: "Element list"
  trace :: "event list"

definition program :: "unit_ctx \<Rightarrow> nat \<Rightarrow> instr list" where
  "program c tid = copyTMAKernel (u_tileShape c) (u_elected c) (u_blockIdx c) tid"

text \<open>What an operation does when a thread issues it; \<open>None\<close> when the thread cannot
  issue it in this state (it blocks, or the barrier is used before \<open>init\<close>). Issuing a
  copy is non-blocking: it only hands the transfer to the engine.\<close>

fun exec_instr :: "instr \<Rightarrow> unit_state \<Rightarrow> unit_state option" where
  "exec_instr prefetch_tma_descriptor_load s = Some s"
| "exec_instr prefetch_tma_descriptor_store s = Some s"
| "exec_instr (mbarrier_init n) s =
     Some (s\<lparr>mbarrier := Some \<lparr>arrive_count = n, pending = n, tx_count = 0, phase = 0\<rparr>\<rparr>)"
| "exec_instr (mbarrier_arrive_and_expect_tx b) s =
     (case mbarrier s of
        None \<Rightarrow> None
      | Some m \<Rightarrow>
          if pending m = 0 then None
          else let m' = m\<lparr>pending := pending m - 1, tx_count := tx_count m + int b\<rparr>
               in Some (s\<lparr>mbarrier := Some (phase_check m'),
                          trace := trace s @ (if completes m' then [barrier_satisfied] else [])\<rparr>))"
| "exec_instr (copy_tmaLoad blk) s = Some (s\<lparr>load_inflight := Some blk\<rparr>)"
| "exec_instr syncthreads s = None"
| "exec_instr (mbarrier_wait ph) s =
     (case mbarrier s of
        None \<Rightarrow> None
      | Some m \<Rightarrow> if phase m \<noteq> ph then Some s else None)"
| "exec_instr fence_view_async_shared s = Some s"
| "exec_instr (copy_tmaStore blk) s = Some (s\<lparr>store_inflight := Some blk\<rparr>)"
| "exec_instr tma_store_arrive s = Some s"
| "exec_instr (tma_store_wait n) s = (if store_inflight s = None then Some s else None)"

text \<open>
  The moves of a block: a thread issues its next operation; \<open>__syncthreads\<close> releases
  all threads once every thread has reached it; the engine completes the load it was
  handed (the tile lands in the staging buffer and its bytes are reported to the
  barrier); the engine completes the store it was handed.
\<close>

datatype action = Thread nat | Sync | Engine_load | Engine_store

definition at_syncthreads :: "unit_ctx \<Rightarrow> unit_state \<Rightarrow> nat \<Rightarrow> bool" where
  "at_syncthreads c s t =
     (pc s ! t < length (program c t) \<and> program c t ! (pc s ! t) = syncthreads)"

definition step :: "unit_ctx \<Rightarrow> action \<Rightarrow> unit_state \<Rightarrow> unit_state option" where
  "step c a s =
     (case a of
        Thread t \<Rightarrow>
          if t < u_threads c \<and> pc s ! t < length (program c t)
          then let i = program c t ! (pc s ! t)
               in exec_instr i (s\<lparr>pc := (pc s)[t := Suc (pc s ! t)],
                                  trace := trace s @ [issued t i]\<rparr>)
          else None
      | Sync \<Rightarrow>
          if list_all (at_syncthreads c s) [0..<u_threads c]
          then Some (s\<lparr>pc := map Suc (pc s), trace := trace s @ [released]\<rparr>)
          else None
      | Engine_load \<Rightarrow>
          (case load_inflight s of
             None \<Rightarrow> None
           | Some blk \<Rightarrow>
               (case mbarrier s of
                  None \<Rightarrow> None
                | Some m \<Rightarrow>
                    let tile = tma_load (u_gmemShape c) (u_tileShape c) (u_src c) blk;
                        m' = m\<lparr>tx_count := tx_count m - int (sizeof_Element * length tile)\<rparr>
                    in Some (s\<lparr>sS := tile,
                               load_inflight := None,
                               mbarrier := Some (phase_check m'),
                               trace := trace s @ [loaded]
                                        @ (if completes m' then [barrier_satisfied] else [])\<rparr>)))
      | Engine_store \<Rightarrow>
          (case store_inflight s of
             None \<Rightarrow> None
           | Some blk \<Rightarrow>
               Some (s\<lparr>gD := tma_store (u_gmemShape c) (u_tileShape c) blk (sS s) (gD s),
                       store_inflight := None,
                       trace := trace s @ [stored]\<rparr>)))"

text \<open>A schedule is a list of moves; \<open>run\<close> is \<open>None\<close> when one of them is not
  possible where it stands.\<close>

fun run :: "unit_ctx \<Rightarrow> action list \<Rightarrow> unit_state \<Rightarrow> unit_state option" where
  "run c [] s = Some s"
| "run c (a # as) s = (case step c a s of None \<Rightarrow> None | Some s' \<Rightarrow> run c as s')"

text \<open>A block starts with every thread at its first operation, the shared memory
  (staging buffer and barrier) uninitialised, and nothing handed to the engine.\<close>

definition init_unit :: "unit_ctx \<Rightarrow> Element list \<Rightarrow> Element list \<Rightarrow> unit_state" where
  "init_unit c smem0 dst0 =
     \<lparr>pc = replicate (u_threads c) 0, mbarrier = None, sS = smem0,
      load_inflight = None, store_inflight = None, gD = dst0, trace = []\<rparr>"

definition threads_exited :: "unit_ctx \<Rightarrow> unit_state \<Rightarrow> bool" where
  "threads_exited c s =
     list_all (\<lambda>t. pc s ! t = length (program c t)) [0..<u_threads c]"

definition quiescent :: "unit_state \<Rightarrow> bool" where
  "quiescent s = (load_inflight s = None \<and> store_inflight s = None)"

text \<open>The thread of the block for which \<open>warp_idx == 0 && lane_predicate\<close> holds.\<close>

definition is_leader :: "unit_ctx \<Rightarrow> nat \<Rightarrow> bool" where
  "is_leader c tid =
     (canonical_warp_idx_sync tid = 0 \<and> elect_one_sync (u_elected c) tid)"

definition well_formed :: "unit_ctx \<Rightarrow> bool" where
  "well_formed c = (u_elected c 0 < 32 \<and> u_elected c 0 < u_threads c)"

text \<open>The five events the ordering of section 5 of the spec is about. The fence that counts
  is the one of the thread that issues the store.\<close>

datatype milestone = Armed | LoadIssued | BarrierSatisfied | Fenced | StoreIssued

fun milestone_of :: "unit_ctx \<Rightarrow> event \<Rightarrow> milestone option" where
  "milestone_of c (issued t (mbarrier_arrive_and_expect_tx b)) = Some Armed"
| "milestone_of c (issued t (copy_tmaLoad blk)) = Some LoadIssued"
| "milestone_of c barrier_satisfied = Some BarrierSatisfied"
| "milestone_of c (issued t fence_view_async_shared) =
     (if is_leader c t then Some Fenced else None)"
| "milestone_of c (issued t (copy_tmaStore blk)) = Some StoreIssued"
| "milestone_of c e = None"

definition milestones :: "unit_ctx \<Rightarrow> event list \<Rightarrow> milestone list" where
  "milestones c tr = List.map_filter (milestone_of c) tr"

text \<open>What one block does to the destination once its store has completed.\<close>

definition unit_transfer ::
  "shape \<Rightarrow> shape \<Rightarrow> Element list \<Rightarrow> coord \<Rightarrow> Element list \<Rightarrow> Element list" where
  "unit_transfer gmemShape tileShape src blk dst =
     tma_store gmemShape tileShape blk (tma_load gmemShape tileShape src blk) dst"

text \<open>The transfers of all the blocks of a grid, one block after the other in the
  order of \<open>blocks_of\<close>. The host function does not use it; that a launch amounts to it
  is proved below, from the runs of the blocks (\<open>launch_is_grid_transfer\<close>).\<close>

definition grid_transfer ::
  "shape \<Rightarrow> shape \<Rightarrow> Element list \<Rightarrow> dim3 \<Rightarrow> Element list \<Rightarrow> Element list" where
  "grid_transfer gmemShape tileShape src grid dst =
     fold (\<lambda>b. unit_transfer gmemShape tileShape src (blkCoord b)) (blocks_of grid) dst"

subsection \<open>The host function\<close>

text \<open>
  What the device contributes to a call of the host function. In each trial of the loop
  of lines 222-238: whether \<open>launch_kernel_on_cluster\<close> reports success (a launch that
  does not is a launch that runs no block), the \<open>cudaError\<close> that
  \<open>cudaDeviceSynchronize\<close> returns (0 is \<open>cudaSuccess\<close>), for every block of the launch
  the order in which its threads and the copy engine move (\<open>scheduler\<close>: trial, block
  and step number to a choice among the moves possible at that step) and what its
  shared memory holds when it starts (\<open>shared_residue\<close>). Further the lane that
  \<open>elect_one_sync\<close> picks among the active lanes of a warp, whether the engine can
  express a descriptor for a tensor shape and a tile shape, and the text
  \<open>cudaGetErrorString\<close> gives for an error.
\<close>

record device =
  launch_status :: "nat \<Rightarrow> bool"
  sync_result :: "nat \<Rightarrow> nat"
  cudaGetErrorString :: "nat \<Rightarrow> string"
  descriptor_accepted :: "int \<times> int \<Rightarrow> int \<times> int \<Rightarrow> bool"
  elect_lane :: "nat \<Rightarrow> nat"
  scheduler :: "nat \<Rightarrow> dim3 \<Rightarrow> nat \<Rightarrow> nat"
  shared_residue :: "nat \<Rightarrow> dim3 \<Rightarrow> Element list"

definition cudaSuccess :: nat where
  "cudaSuccess = 0"

record ClusterLaunchParams =
  grid_dims :: dim3
  block_dims :: dim3
  cluster_dims :: dim3
  smem_size_in_bytes :: nat

text \<open>The ways the function ends without returning: the \<open>host_vector\<close> of line 169
  cannot be allocated when \<open>size(tensor_shape)\<close> is negative (it is converted to
  \<open>size_t\<close>), and the plan cannot be built.\<close>

datatype host_abort = bad_alloc | ConfigurationError

text \<open>\<open>size(tensor_shape)\<close> of lines 169-170 is the product of two \<open>int\<close> values,
  computed in \<open>int\<close>: 32 bits, two's complement, wrapping around.\<close>

definition int_mul :: "int \<Rightarrow> int \<Rightarrow> int" where
  "int_mul a b = (a * b + 2 ^ 31) mod 2 ^ 32 - 2 ^ 31"

text \<open>
  Modelled from the spec: \<open>make_tma_copy\<close> of lines 195-199 is library code. The spec
  (sections 4.1, 4.4, 7 and 8) says that building the plan fails with
  \<open>ConfigurationError\<close>, before any unit is launched, for a non-positive dimension of
  the array or of the tile and when the engine's descriptor format cannot express the
  shapes. A descriptor that is built is modelled by what the kernel reads from it: the
  shape of the global array and the shape of the tile.
\<close>

definition make_tma_copy :: "device \<Rightarrow> int \<times> int \<Rightarrow> int \<times> int \<Rightarrow> host_abort + shape \<times> shape" where
  "make_tma_copy dev tensor_shape tile_shape =
     (if fst tensor_shape \<le> 0 \<or> snd tensor_shape \<le> 0
         \<or> fst tile_shape \<le> 0 \<or> snd tile_shape \<le> 0
         \<or> \<not> descriptor_accepted dev tensor_shape tile_shape
      then Inl ConfigurationError
      else Inr ((nat (fst tensor_shape), nat (snd tensor_shape)),
                (nat (fst tile_shape), nat (snd tile_shape))))"

text \<open>
  A block of a launch runs the kernel: from its initial state it makes moves of \<open>step\<close>
  until every thread has exited and the engine has nothing left to do. At each step the
  device picks one of the moves that are possible. \<open>None\<close> is a block that cannot go
  on before it has finished, or that has not finished after \<open>fuel\<close> moves.
\<close>

definition all_actions :: "unit_ctx \<Rightarrow> action list" where
  "all_actions c = map Thread [0..<u_threads c] @ [Sync, Engine_load, Engine_store]"

definition enabled :: "unit_ctx \<Rightarrow> unit_state \<Rightarrow> action list" where
  "enabled c s = filter (\<lambda>a. step c a s \<noteq> None) (all_actions c)"

definition finished :: "unit_ctx \<Rightarrow> unit_state \<Rightarrow> bool" where
  "finished c s = (threads_exited c s \<and> quiescent s)"

fun execute_block ::
  "unit_ctx \<Rightarrow> (nat \<Rightarrow> nat) \<Rightarrow> nat \<Rightarrow> nat \<Rightarrow> unit_state \<Rightarrow> unit_state option" where
  "execute_block c pick 0 k s = (if finished c s then Some s else None)"
| "execute_block c pick (Suc fuel) k s =
     (if finished c s then Some s
      else case enabled c s of
             [] \<Rightarrow> None
           | a # as \<Rightarrow>
               (case step c ((a # as) ! (pick k mod length (a # as))) s of
                  None \<Rightarrow> None
                | Some s' \<Rightarrow> execute_block c pick fuel (Suc k) s'))"

text \<open>The block at index \<open>blockIdx\<close> of a launch with \<open>blockDim\<close> threads per block, as
  the kernel sees it through its \<open>Params\<close> (the descriptor and the source buffer).
  \<open>elect_one_sync\<close> picks one of the lanes of the warp that are active.\<close>

definition active_lanes :: "nat \<Rightarrow> nat \<Rightarrow> nat" where
  "active_lanes threads warp = min 32 (threads - 32 * warp)"

definition block_ctx :: "device \<Rightarrow> shape \<times> shape \<Rightarrow> Element list \<Rightarrow> dim3 \<Rightarrow> dim3 \<Rightarrow> unit_ctx" where
  "block_ctx dev tma d_S blockDim blockIdx =
     \<lparr>u_gmemShape = fst tma, u_tileShape = snd tma, u_src = d_S, u_blockIdx = blockIdx,
      u_threads = dim_x blockDim,
      u_elected = (\<lambda>w. elect_lane dev w mod active_lanes (dim_x blockDim) w)\<rparr>"

text \<open>No block needs more than \<open>27 * threads + 2\<close> moves (\<open>work_bounded\<close> below), and a
  block of a launch always finishes (\<open>launched_block_finishes\<close> below), so the case
  \<open>None\<close> does not arise here.\<close>

definition launch_block ::
  "device \<Rightarrow> nat \<Rightarrow> shape \<times> shape \<Rightarrow> Element list \<Rightarrow> dim3 \<Rightarrow> dim3 \<Rightarrow> Element list
     \<Rightarrow> Element list" where
  "launch_block dev trial tma d_S blockDim blockIdx d_D =
     (let c = block_ctx dev tma d_S blockDim blockIdx
      in case execute_block c (scheduler dev trial blockIdx) (27 * u_threads c + 2) 0
                (init_unit c (shared_residue dev trial blockIdx) d_D) of
           None \<Rightarrow> d_D
         | Some s \<Rightarrow> gD s)"

text \<open>An accepted launch followed by the device-wide synchronisation: every block of
  the grid has run the kernel to its end. Blocks do not communicate; they are taken in
  the order of \<open>blocks_of\<close>.\<close>

definition launch_kernel_on_cluster ::
  "device \<Rightarrow> nat \<Rightarrow> ClusterLaunchParams \<Rightarrow> shape \<times> shape \<Rightarrow> Element list \<Rightarrow> Element list
     \<Rightarrow> Element list" where
  "launch_kernel_on_cluster dev trial launch_params tma d_S d_D =
     fold (launch_block dev trial tma d_S (block_dims launch_params))
       (blocks_of (grid_dims launch_params)) d_D"

text \<open>The loop of lines 222-238, from trial \<open>i\<close> on. The state is the destination
  buffer on the device and the number of launch calls made so far. The \<open>Status\<close> that
  the launch returns is assigned and not read again (line 224); the only exit is the
  \<open>return -1\<close> of line 231, after the diagnostic has been written to \<open>std::cerr\<close>.\<close>

function trials ::
  "device \<Rightarrow> (nat \<Rightarrow> Element list \<Rightarrow> Element list) \<Rightarrow> int \<Rightarrow> int \<Rightarrow> Element list \<times> nat
     \<Rightarrow> (string \<times> nat) + (Element list \<times> nat)" where
  "trials dev kern iterations i st =
     (if i < iterations
      then if sync_result dev (nat i) \<noteq> cudaSuccess
           then Inl (''CUDA Runtime error: '' @ cudaGetErrorString dev (sync_result dev (nat i)),
                     Suc (snd st))
           else trials dev kern iterations (i + 1)
                  (if launch_status dev (nat i) then kern (nat i) (fst st) else fst st,
                   Suc (snd st))
      else Inr st)"
  by pat_completeness auto
termination
  by (relation "measure (\<lambda>(dev, kern, iterations, i, st). nat (iterations - i))") auto

declare trials.simps [simp del]

text \<open>Lines 246-253. The two counters are \<open>int\<close>; they count the elements of a buffer
  of at most \<open>2^31 - 1\<close> elements, and do not overflow.\<close>

definition verify :: "Element list \<Rightarrow> Element list \<Rightarrow> int \<times> int" where
  "verify h_D h_S =
     fold (\<lambda>i (good, bad). if h_D ! i = h_S ! i then (good + 1, bad) else (good, bad + 1))
       [0..<length h_D] (0, 0)"

record report =
  status :: int
  cerr :: "string list"
  launch_params :: ClusterLaunchParams
  launches :: nat
  h_S :: "Element list"
  h_D :: "Element list"
  good :: int
  bad :: int

text \<open>
  Lines 157-257. The template parameters \<open>TILE_M\<close>, \<open>TILE_N\<close> and \<open>THREADS\<close> come
  first, after the size of the barrier in the shared storage and the device. The
  buffers are allocated first (lines 169-176), then the two descriptors are built
  (lines 195-199); the tile extents are positive once they are built, so \<open>ceil_div\<close> of
  line 205 does not divide by zero. An \<open>Inl\<close> value is a call that ended before the
  loop of trials: no launch has been made. Printing to \<open>stdout\<close> and the timing are
  left out; \<open>status\<close> is the value returned.
\<close>

definition copy_host_tma_load_and_store_kernel ::
  "nat \<Rightarrow> device \<Rightarrow> int \<Rightarrow> int \<Rightarrow> int \<Rightarrow> int \<Rightarrow> int \<Rightarrow> int \<Rightarrow> host_abort + report" where
  "copy_host_tma_load_and_store_kernel barrier_bytes dev TILE_M TILE_N THREADS M N iterations =
     (if int_mul M N < 0 then Inl bad_alloc
      else
        case make_tma_copy dev (M, N) (TILE_M, TILE_N) of
          Inl e \<Rightarrow> Inl e
        | Inr tmaLoad \<Rightarrow>
            (case make_tma_copy dev (M, N) (TILE_M, TILE_N) of
               Inl e \<Rightarrow> Inl e
             | Inr tmaStore \<Rightarrow>
                 let hS = map float_of_size_t [0..<nat (int_mul M N)];
                     hD = replicate (nat (int_mul M N)) 0;
                     d_S = hS;
                     d_D = hD;
                     params = \<lparr>grid_dims = gridDim_of TILE_M TILE_N M N,
                               block_dims = dim3_1 THREADS,
                               cluster_dims = dim3_1 1,
                               smem_size_in_bytes = smem_size barrier_bytes (snd tmaLoad)\<rparr>;
                     kern = (\<lambda>trial. launch_kernel_on_cluster dev trial params tmaLoad d_S)
                 in case trials dev kern iterations 0 (d_D, 0) of
                      Inl (msg, k) \<Rightarrow>
                        Inr \<lparr>status = - 1, cerr = [msg], launch_params = params, launches = k,
                             h_S = hS, h_D = hD, good = 0, bad = 0\<rparr>
                    | Inr (d_D', k) \<Rightarrow>
                        Inr \<lparr>status = 0, cerr = [], launch_params = params, launches = k,
                             h_S = hS, h_D = d_D',
                             good = fst (verify d_D' hS), bad = snd (verify d_D' hS)\<rparr>))"

subsection \<open>The states a block can be in\<close>

text \<open>
  The elected thread of warp 0, and the description of a block's state by three
  things: how far the elected thread has come (its program counter \<open>lp\<close>), whether the
  engine has completed the load (\<open>ld\<close>) and whether it has completed the store
  (\<open>sd\<close>). \<open>unit_inv\<close> says that the state is the one this description gives; it is
  the invariant of the block's runs.
\<close>

definition leader :: "unit_ctx \<Rightarrow> nat" where
  "leader c = u_elected c 0"

definition bar_at :: "unit_ctx \<Rightarrow> nat \<Rightarrow> bool \<Rightarrow> mbar option" where
  "bar_at c lp ld =
     (if lp \<le> 2 then None
      else if lp = 3 then Some \<lparr>arrive_count = 1, pending = 1, tx_count = 0, phase = 0\<rparr>
      else if ld then Some \<lparr>arrive_count = 1, pending = 1, tx_count = 0, phase = 1\<rparr>
      else Some \<lparr>arrive_count = 1, pending = 0,
                 tx_count = int (kTmaTransactionBytes (u_tileShape c)), phase = 0\<rparr>)"

definition ms_at :: "nat \<Rightarrow> bool \<Rightarrow> milestone list" where
  "ms_at lp ld =
     (if lp \<le> 3 then []
      else if lp = 4 then [Armed]
      else [Armed, LoadIssued] @ (if ld then [BarrierSatisfied] else [])
           @ (if 8 \<le> lp then [Fenced] else []) @ (if lp = 9 then [StoreIssued] else []))"

definition load_done :: "unit_state \<Rightarrow> bool" where
  "load_done s = (case mbarrier s of None \<Rightarrow> False | Some m \<Rightarrow> phase m = 1)"

definition store_done :: "unit_ctx \<Rightarrow> unit_state \<Rightarrow> bool" where
  "store_done c s = (pc s ! leader c = 9 \<and> store_inflight s = None)"

definition unit_inv :: "unit_ctx \<Rightarrow> Element list \<Rightarrow> Element list \<Rightarrow> unit_state \<Rightarrow> bool" where
  "unit_inv c smem0 dst0 s =
     (let lp = pc s ! leader c; ld = load_done s; sd = store_done c s;
          blk = blkCoord (u_blockIdx c);
          tile = tma_load (u_gmemShape c) (u_tileShape c) (u_src c) blk
      in length (pc s) = u_threads c
       \<and> lp \<le> 9
       \<and> (\<forall>t < u_threads c. t \<noteq> leader c \<longrightarrow>
             pc s ! t \<le> 3 \<and> (pc s ! t = 0 \<longleftrightarrow> lp \<le> 5) \<and> (2 \<le> pc s ! t \<longrightarrow> ld))
       \<and> (ld \<longrightarrow> 5 \<le> lp)
       \<and> (7 \<le> lp \<longrightarrow> ld)
       \<and> mbarrier s = bar_at c lp ld
       \<and> sS s = (if ld then tile else smem0)
       \<and> load_inflight s = (if 5 \<le> lp \<and> \<not> ld then Some blk else None)
       \<and> store_inflight s = (if lp = 9 \<and> \<not> sd then Some blk else None)
       \<and> gD s = (if sd then tma_store (u_gmemShape c) (u_tileShape c) blk tile dst0 else dst0)
       \<and> milestones c (trace s) = ms_at lp ld)"

subsection \<open>Concrete inputs\<close>

text \<open>A device on which every launch and every synchronisation succeeds, which accepts
  every descriptor, elects lane 0 and always takes the first move that is possible;
  and one whose second synchronisation (trial 1) reports error 700.\<close>

definition healthy_device :: device where
  "healthy_device =
     \<lparr>launch_status = (\<lambda>i. True), sync_result = (\<lambda>i. 0),
      cudaGetErrorString = (\<lambda>e. ''an illegal memory access was encountered''),
      descriptor_accepted = (\<lambda>tensor_shape tile_shape. True),
      elect_lane = (\<lambda>w. 0), scheduler = (\<lambda>i b k. 0), shared_residue = (\<lambda>i b. [])\<rparr>"

definition faulting_device :: device where
  "faulting_device = healthy_device\<lparr>sync_result := (\<lambda>i. if i = 1 then 700 else 0)\<rparr>"

text \<open>A block of three threads whose elected lane is lane 1, at block index \<open>(1, 0)\<close>
  of a \<open>3 \<times> 3\<close> array cut into \<open>2 \<times> 2\<close> tiles: a boundary tile, of which only the last
  row of the array, columns 0 and 1, lies inside. In the schedule, thread 0 passes its
  wait before the elected thread does and thread 2 after the store has been issued; the
  engine completes the store last.\<close>

definition example_unit :: unit_ctx where
  "example_unit =
     \<lparr>u_gmemShape = (3, 3), u_tileShape = (2, 2), u_src = [0, 1, 2, 3, 4, 5, 6, 7, 8],
      u_blockIdx = \<lparr>dim_x = 1, dim_y = 0, dim_z = 0\<rparr>, u_threads = 3,
      u_elected = (\<lambda>w. 1)\<rparr>"

definition example_schedule :: "action list" where
  "example_schedule =
     [Thread 1, Thread 1, Thread 1, Thread 1, Thread 1, Sync, Engine_load,
      Thread 0, Thread 1, Thread 1, Thread 1, Thread 0, Thread 2, Thread 2, Engine_store]"

text \<open>The offsets of the destination that belong to the tile at block coordinate
  \<open>blk\<close>: those of the coordinates inside the array whose row and column fall in the
  tile.\<close>

definition tile_region :: "shape \<Rightarrow> shape \<Rightarrow> coord \<Rightarrow> nat set" where
  "tile_region gmemShape tileShape blk =
     {LayoutRight gmemShape (r, c) | r c.
        in_bounds gmemShape (r, c) \<and> r div fst tileShape = fst blk \<and> c div snd tileShape = snd blk}"

section \<open>Properties\<close>

subsection \<open>Sizes\<close>

text \<open>
  C3. The byte count the barrier is armed with is the byte size of the staging tile,
  \<open>sizeof(Element) * tileRows * tileCols\<close>; it is also the number of bytes a load
  delivers into the staging buffer; and the shared-memory size requested at launch is
  that tile size plus the size of the barrier.
\<close>

theorem transaction_bytes_match_tile:
  "kTmaTransactionBytes (tr, tc) = sizeof_Element * tr * tc
   \<and> sizeof_Element * length (tma_load gmemShape (tr, tc) src blk) = kTmaTransactionBytes (tr, tc)
   \<and> smem_size barrier_bytes (tr, tc) = sizeof_Element * tr * tc + barrier_bytes"
  by (simp add: kTmaTransactionBytes_def smem_size_def sizeof_SharedStorageTMA_def
      sizeof_ArrayEngine_def size_shape_def tma_load_def)

subsection \<open>The verification pass\<close>

lemma bit_length_pos: "0 < n \<Longrightarrow> 0 < bit_length n"
  by (subst bit_length.simps) simp

lemma bit_length_lower: "0 < n \<Longrightarrow> 2 ^ (bit_length n - 1) \<le> n"
proof (induction n rule: bit_length.induct)
  case (1 n)
  show ?case
  proof (cases "n div 2 = 0")
    case True
    then have "n = 1" using 1(2) by auto
    then show ?thesis by (simp add: bit_length.simps)
  next
    case False
    then have "2 ^ (bit_length (n div 2) - 1) \<le> n div 2"
      using 1 by simp
    moreover have "bit_length n - 1 = Suc (bit_length (n div 2) - 1)"
      using False 1(2) bit_length_pos[of "n div 2"] by (subst bit_length.simps) simp
    ultimately show ?thesis by simp
  qed
qed

lemma float_of_size_t_eq_0: "float_of_size_t i = 0 \<longleftrightarrow> i = 0"
proof (cases "i < 2 ^ 24")
  case True
  then show ?thesis by (simp add: float_of_size_t_def)
next
  case False
  then have pos: "0 < i" by simp
  define e where "e = bit_length i - 24"
  have "(2::nat) ^ e \<le> 2 ^ (bit_length i - 1)"
    unfolding e_def by (rule power_increasing) simp_all
  then have "2 ^ e \<le> i"
    using bit_length_lower[OF pos] by linarith
  then have "0 < i div 2 ^ e"
    by (simp add: div_greater_zero_iff)
  then show ?thesis
    using False pos by (simp add: float_of_size_t_def Let_def e_def)
qed

lemma verify_fold:
  "fold (\<lambda>i (good, bad). if d ! i = s ! i then (good + 1, bad) else (good, bad + 1)) xs (g, b)
     = (g + int (length (filter (\<lambda>i. d ! i = s ! i) xs)),
        b + int (length (filter (\<lambda>i. d ! i \<noteq> s ! i) xs)))"
  by (induction xs arbitrary: g b) auto

lemma verify_counts:
  "verify d s = (int (length (filter (\<lambda>i. d ! i = s ! i) [0..<length d])),
                 int (length (filter (\<lambda>i. d ! i \<noteq> s ! i) [0..<length d])))"
  by (simp add: verify_def verify_fold)

lemma verify_same: "verify d d = (int (length d), 0)"
  by (simp add: verify_counts)

lemma filter_nonzero_upt: "length (filter (\<lambda>i. 0 < i) [0..<n]) = n - 1"
  by (induction n) auto

lemma verify_untouched:
  "verify (replicate n 0) (map float_of_size_t [0..<n]) = (int (min n 1), int (n - 1))"
proof -
  have a: "filter (\<lambda>i. replicate n (0::int) ! i \<noteq> map float_of_size_t [0..<n] ! i) [0..<n]
      = filter (\<lambda>i. i \<noteq> 0) [0..<n]"
    by (rule filter_cong) (auto simp: float_of_size_t_eq_0 eq_commute[of "0::int"])
  have b: "filter (\<lambda>i. replicate n (0::int) ! i = map float_of_size_t [0..<n] ! i) [0..<n]
      = filter (\<lambda>i. i = 0) [0..<n]"
    by (rule filter_cong) (auto simp: float_of_size_t_eq_0 eq_commute[of "0::int"])
  have c: "length (filter (\<lambda>i. i = 0) [0..<n]) = min n 1"
    by (induction n) auto
  show ?thesis
    by (simp add: verify_counts a b c filter_nonzero_upt)
qed

subsection \<open>The launch grid\<close>

lemma ceil_div_pos:
  assumes "0 \<le> a" and "0 < b"
  shows "ceil_div a b = (a + b - 1) div b"
  using assms by (simp add: ceil_div_def signed_divide_int_def sgn_if)

lemma less_round_up_div_iff:
  assumes "0 < (b::int)"
  shows "k < (a + b - 1) div b \<longleftrightarrow> k * b < a"
proof -
  have "k < (a + b - 1) div b \<longleftrightarrow> k + 1 \<le> (a + b - 1) div b"
    by linarith
  also have "\<dots> \<longleftrightarrow> k + 1 \<le> \<lfloor>real_of_int (a + b - 1) / real_of_int b\<rfloor>"
    by (simp only: floor_divide_of_int_eq)
  also have "\<dots> \<longleftrightarrow> real_of_int (k + 1) \<le> real_of_int (a + b - 1) / real_of_int b"
    by (simp only: le_floor_iff)
  also have "\<dots> \<longleftrightarrow> real_of_int (k + 1) * real_of_int b \<le> real_of_int (a + b - 1)"
    using assms by (simp add: pos_le_divide_eq)
  also have "\<dots> \<longleftrightarrow> (k + 1) * b \<le> a + b - 1"
    by (simp only: of_int_le_iff flip: of_int_mult)
  also have "\<dots> \<longleftrightarrow> k * b < a"
    by (auto simp: algebra_simps)
  finally show ?thesis .
qed

lemma less_ceiling_div_iff:
  assumes "0 < (b::int)"
  shows "k < \<lceil>real_of_int a / real_of_int b\<rceil> \<longleftrightarrow> k * b < a"
proof -
  have "k < \<lceil>real_of_int a / real_of_int b\<rceil> \<longleftrightarrow> real_of_int k < real_of_int a / real_of_int b"
    by (simp only: less_ceiling_iff)
  also have "\<dots> \<longleftrightarrow> real_of_int k * real_of_int b < real_of_int a"
    using assms by (simp add: pos_less_divide_eq)
  also have "\<dots> \<longleftrightarrow> k * b < a"
    by (simp only: of_int_less_iff flip: of_int_mult)
  finally show ?thesis .
qed

lemma ceil_div_ceiling:
  assumes "0 \<le> a" and "0 < b"
  shows "ceil_div a b = \<lceil>real_of_int a / real_of_int b\<rceil>"
proof -
  have "\<And>k. k < (a + b - 1) div b \<longleftrightarrow> k < \<lceil>real_of_int a / real_of_int b\<rceil>"
    using assms(2) by (simp only: less_round_up_div_iff less_ceiling_div_iff)
  then have "(a + b - 1) div b = \<lceil>real_of_int a / real_of_int b\<rceil>"
    by (meson linorder_neq_iff less_irrefl)
  then show ?thesis
    using assms by (simp add: ceil_div_pos)
qed

lemma ceil_div_bounds:
  assumes "0 \<le> a" and "0 < b"
  shows "0 \<le> ceil_div a b" and "ceil_div a b \<le> a + b - 1"
proof -
  have nn: "0 \<le> a + b - 1" using assms by simp
  show "0 \<le> ceil_div a b"
    using assms nn by (simp add: ceil_div_pos pos_imp_zdiv_nonneg_iff)
  have "(a + b - 1) div b \<le> (a + b - 1) div 1"
    using assms nn by (intro zdiv_mono2) simp_all
  then show "ceil_div a b \<le> a + b - 1"
    using assms by (simp add: ceil_div_pos)
qed

lemma unsigned_of_int_id: "0 \<le> v \<Longrightarrow> v \<le> INT_MAX \<Longrightarrow> int (unsigned_of_int v) = v"
  by (simp add: unsigned_of_int_def INT_MAX_def)

lemma distinct_concat_map:
  assumes "distinct xs"
    and "\<And>x. x \<in> set xs \<Longrightarrow> distinct (f x)"
    and "\<And>x y. x \<in> set xs \<Longrightarrow> y \<in> set xs \<Longrightarrow> x \<noteq> y \<Longrightarrow> set (f x) \<inter> set (f y) = {}"
  shows "distinct (concat (map f xs))"
  using assms by (induction xs) fastforce+

lemma length_concat_map_const:
  "(\<And>x. x \<in> set xs \<Longrightarrow> length (f x) = k) \<Longrightarrow> length (concat (map f xs)) = length xs * k"
  by (induction xs) auto

lemma set_blocks_of:
  "set (blocks_of g) = {b. dim_x b < dim_x g \<and> dim_y b < dim_y g \<and> dim_z b < dim_z g}"
proof (intro set_eqI iffI)
  fix b :: dim3
  assume "b \<in> {b. dim_x b < dim_x g \<and> dim_y b < dim_y g \<and> dim_z b < dim_z g}"
  then have "\<exists>bx\<in>set [0..<dim_x g]. \<exists>by\<in>set [0..<dim_y g]. \<exists>bz\<in>set [0..<dim_z g].
      b = \<lparr>dim_x = bx, dim_y = by, dim_z = bz\<rparr>"
    by (intro bexI[of _ "dim_x b"] bexI[of _ "dim_y b"] bexI[of _ "dim_z b"]) simp_all
  then show "b \<in> set (blocks_of g)"
    by (simp add: blocks_of_def image_iff)
next
  fix b :: dim3
  assume "b \<in> set (blocks_of g)"
  then show "b \<in> {b. dim_x b < dim_x g \<and> dim_y b < dim_y g \<and> dim_z b < dim_z g}"
    unfolding blocks_of_def by auto
qed

lemma length_blocks_of: "length (blocks_of g) = dim_x g * dim_y g * dim_z g"
  unfolding blocks_of_def
  by (simp add: length_concat_map_const[where k = "dim_y g * dim_z g"]
      length_concat_map_const[where k = "dim_z g"])

lemma distinct_blocks_of: "distinct (blocks_of g)"
  unfolding blocks_of_def
  by (intro distinct_concat_map) (auto simp: distinct_map inj_on_def)

lemma gridDim_of_dims:
  assumes "0 < M" and "0 < N" and "0 < TILE_M" and "0 < TILE_N"
    and "M + TILE_M - 1 \<le> INT_MAX" and "N + TILE_N - 1 \<le> INT_MAX"
  shows "int (dim_x (gridDim_of TILE_M TILE_N M N)) = ceil_div M TILE_M"
    and "int (dim_y (gridDim_of TILE_M TILE_N M N)) = ceil_div N TILE_N"
    and "dim_z (gridDim_of TILE_M TILE_N M N) = 1"
  using assms ceil_div_bounds[of M TILE_M] ceil_div_bounds[of N TILE_N]
  by (simp_all add: gridDim_of_def dim3_2_def unsigned_of_int_id)

lemma gridDim_of_blocks:
  assumes "0 < M" and "0 < N" and "0 < TILE_M" and "0 < TILE_N"
    and "M + TILE_M - 1 \<le> INT_MAX" and "N + TILE_N - 1 \<le> INT_MAX"
  shows "\<lparr>dim_x = bi, dim_y = bj, dim_z = 0\<rparr> \<in> set (blocks_of (gridDim_of TILE_M TILE_N M N))
         \<longleftrightarrow> int bi * TILE_M < M \<and> int bj * TILE_N < N"
proof -
  note d = gridDim_of_dims[OF assms]
  have "bi < dim_x (gridDim_of TILE_M TILE_N M N) \<longleftrightarrow> int bi < ceil_div M TILE_M"
    unfolding d(1)[symmetric] by simp
  moreover have "bj < dim_y (gridDim_of TILE_M TILE_N M N) \<longleftrightarrow> int bj < ceil_div N TILE_N"
    unfolding d(2)[symmetric] by simp
  ultimately show ?thesis
    using assms(1-4)
    by (simp add: set_blocks_of d(3) ceil_div_pos less_round_up_div_iff)
qed

subsection \<open>What a launch does to the destination\<close>

lemma fold_cond_update_length:
  "length (fold (\<lambda>k d. if P k then d[f k := v k] else d) ks d) = length d"
  by (induction ks arbitrary: d) auto

lemma fold_cond_update_nth:
  assumes "p < length d" and "\<forall>k\<in>set ks. P k \<longrightarrow> v k = w (f k)"
  shows "fold (\<lambda>k d. if P k then d[f k := v k] else d) ks d ! p
         = (if p \<in> f ` {k \<in> set ks. P k} then w p else d ! p)"
  using assms
proof (induction ks arbitrary: d)
  case Nil
  then show ?case by simp
next
  case (Cons k ks)
  let ?d = "if P k then d[f k := v k] else d"
  have len: "p < length ?d"
    using Cons.prems(1) by simp
  have ih: "fold (\<lambda>k d. if P k then d[f k := v k] else d) ks ?d ! p
         = (if p \<in> f ` {k \<in> set ks. P k} then w p else ?d ! p)"
    using Cons.IH[OF len] Cons.prems(2) by simp
  have hd: "?d ! p = (if P k \<and> f k = p then w p else d ! p)"
    using Cons.prems by (auto simp: nth_list_update)
  have "f ` {j \<in> set (k # ks). P j} = (if P k then {f k} else {}) \<union> f ` {j \<in> set ks. P j}"
    by auto
  then show ?case
    using ih hd by auto
qed

lemma tma_store_as_fold:
  "tma_store g t blk smem dst =
     fold (\<lambda>k d. if in_bounds g (local_tile t blk (idx2crd t k))
                  then d[LayoutRight g (local_tile t blk (idx2crd t k)) := smem ! k] else d)
       [0..<size_shape t] dst"
  unfolding tma_store_def tma_store_elem_def Let_def ..

lemma length_tma_store [simp]: "length (tma_store g t blk smem dst) = length dst"
  unfolding tma_store_as_fold by (rule fold_cond_update_length)

lemma length_unit_transfer [simp]: "length (unit_transfer g t src blk dst) = length dst"
  by (simp add: unit_transfer_def)

lemma set_store_offsets:
  "set (store_offsets g t blk) =
     (\<lambda>k. LayoutRight g (local_tile t blk (idx2crd t k)))
       ` {k \<in> set [0..<size_shape t]. in_bounds g (local_tile t blk (idx2crd t k))}"
  by (simp add: store_offsets_def)

lemma unit_transfer_nth:
  assumes "p < length dst"
  shows "unit_transfer g t src blk dst ! p
         = (if p \<in> set (store_offsets g t blk) then src ! p else dst ! p)"
proof -
  have "\<forall>k\<in>set [0..<size_shape t]. in_bounds g (local_tile t blk (idx2crd t k)) \<longrightarrow>
      tma_load g t src blk ! k = src ! LayoutRight g (local_tile t blk (idx2crd t k))"
    by (simp add: tma_load_def Let_def)
  then show ?thesis
    unfolding unit_transfer_def tma_store_as_fold set_store_offsets
    by (rule fold_cond_update_nth[OF assms])
qed

lemma length_grid_transfer [simp]: "length (grid_transfer g t src grid dst) = length dst"
proof -
  have "length (fold (\<lambda>b. unit_transfer g t src (blkCoord b)) bs dst) = length dst" for bs
    by (induction bs arbitrary: dst) auto
  then show ?thesis by (simp add: grid_transfer_def)
qed

lemma fold_unit_transfer_nth:
  assumes "p < length dst"
  shows "fold (\<lambda>b. unit_transfer g t src (blkCoord b)) bs dst ! p
         = (if \<exists>b\<in>set bs. p \<in> set (store_offsets g t (blkCoord b)) then src ! p else dst ! p)"
  using assms
proof (induction bs arbitrary: dst)
  case Nil
  then show ?case by simp
next
  case (Cons b bs)
  then show ?case
    by (simp add: unit_transfer_nth)
qed

lemma grid_transfer_nth:
  assumes "p < length dst"
  shows "grid_transfer g t src grid dst ! p
         = (if \<exists>b\<in>set (blocks_of grid). p \<in> set (store_offsets g t (blkCoord b))
            then src ! p else dst ! p)"
  unfolding grid_transfer_def by (rule fold_unit_transfer_nth[OF assms])

lemma grid_transfer_idem: "grid_transfer g t src grid (grid_transfer g t src grid dst) = grid_transfer g t src grid dst"
  by (rule nth_equalityI) (simp_all add: grid_transfer_nth)

text \<open>An offset that a block stores to determines the block.\<close>

lemma store_offsets_owner:
  assumes "p \<in> set (store_offsets (M, N) (TM, TN) blk)"
  shows "blk = ((p div N) div TM, (p mod N) div TN)" and "p < M * N"
proof -
  obtain k where k: "k < TM * TN"
    and inb: "in_bounds (M, N) (local_tile (TM, TN) blk (idx2crd (TM, TN) k))"
    and p: "p = LayoutRight (M, N) (local_tile (TM, TN) blk (idx2crd (TM, TN) k))"
    using assms by (auto simp: set_store_offsets size_shape_def)
  define r where "r = fst blk * TM + k div TN"
  define c where "c = snd blk * TN + k mod TN"
  have TN: "0 < TN" and TM: "0 < TM"
    using k by (auto intro: gr0I)
  have rM: "r < M" and cN: "c < N" and pr: "p = r * N + c"
    using inb p by (simp_all add: in_bounds_def local_tile_def idx2crd_def LayoutRight_def r_def c_def)
  have i: "k div TN < TM"
    using k TN by (simp add: less_mult_imp_div_less mult.commute)
  have j: "k mod TN < TN"
    using TN by simp
  have "p div N = r" "p mod N = c"
    using cN by (simp_all add: pr)
  moreover have "r div TM = fst blk" "c div TN = snd blk"
    using i j by (simp_all add: r_def c_def)
  ultimately show "blk = ((p div N) div TM, (p mod N) div TN)"
    by (simp add: prod_eq_iff)
  have "r * N + c < r * N + N" using cN by simp
  also have "\<dots> = Suc r * N" by simp
  also have "\<dots> \<le> M * N" using rM by (intro mult_le_mono1) simp
  finally show "p < M * N" by (simp add: pr)
qed

text \<open>Every offset of the array is stored to by the block of its tile.\<close>

lemma store_offsets_cover:
  assumes "p < M * N" and "0 < TM" and "0 < TN"
  shows "p \<in> set (store_offsets (M, N) (TM, TN) ((p div N) div TM, (p mod N) div TN))"
proof -
  have N: "0 < N" using assms(1) by (cases N) simp_all
  define r where "r = p div N"
  define c where "c = p mod N"
  define k where "k = (r mod TM) * TN + c mod TN"
  have rM: "r < M"
    using assms(1) N by (simp add: r_def less_mult_imp_div_less)
  have cN: "c < N"
    using N by (simp add: c_def)
  have "k < (r mod TM) * TN + TN"
    using assms(3) by (simp add: k_def)
  also have "\<dots> = Suc (r mod TM) * TN" by simp
  also have "\<dots> \<le> TM * TN"
    using assms(2) by (intro mult_le_mono1) (simp add: Suc_leI)
  finally have kk: "k < TM * TN" .
  have crd: "idx2crd (TM, TN) k = (r mod TM, c mod TN)"
    using assms(3) by (simp add: idx2crd_def k_def)
  have lt: "local_tile (TM, TN) (r div TM, c div TN) (idx2crd (TM, TN) k) = (r, c)"
    by (simp add: crd local_tile_def)
  have "in_bounds (M, N) (r, c)" "LayoutRight (M, N) (r, c) = p"
    using rM cN by (simp_all add: in_bounds_def LayoutRight_def r_def c_def)
  then show ?thesis
    unfolding set_store_offsets r_def[symmetric] c_def[symmetric]
    using kk lt by (intro image_eqI[where x = k]) (simp_all add: size_shape_def)
qed

lemma store_offsets_in_region:
  "set (store_offsets (M, N) (TM, TN) blk) \<subseteq> tile_region (M, N) (TM, TN) blk"
proof
  fix p assume p: "p \<in> set (store_offsets (M, N) (TM, TN) blk)"
  note own = store_offsets_owner[OF p]
  have N: "0 < N" using own(2) by (cases N) simp_all
  have "p div N < M"
    using own(2) N by (simp add: less_mult_imp_div_less)
  moreover have "p mod N < N" using N by simp
  moreover have "LayoutRight (M, N) (p div N, p mod N) = p"
    by (simp add: LayoutRight_def)
  ultimately show "p \<in> tile_region (M, N) (TM, TN) blk"
    unfolding tile_region_def using own(1)
    by (intro CollectI exI[of _ "p div N"] exI[of _ "p mod N"]) (simp add: in_bounds_def)
qed

lemma store_bytes_disjoint:
  assumes "blk \<noteq> blk'"
  shows "store_bytes (M, N) (TM, TN) blk \<inter> store_bytes (M, N) (TM, TN) blk' = {}"
proof (rule ccontr)
  assume "store_bytes (M, N) (TM, TN) blk \<inter> store_bytes (M, N) (TM, TN) blk' \<noteq> {}"
  then obtain q p p' where p: "p \<in> set (store_offsets (M, N) (TM, TN) blk)"
    and p': "p' \<in> set (store_offsets (M, N) (TM, TN) blk')"
    and q: "sizeof_Element * p \<le> q" "q < sizeof_Element * p + sizeof_Element"
      "sizeof_Element * p' \<le> q" "q < sizeof_Element * p' + sizeof_Element"
    by (auto simp: store_bytes_def)
  have "p = p'"
    using q by (simp add: sizeof_Element_def)
  then show False
    using store_offsets_owner(1)[OF p] store_offsets_owner(1)[OF p'] assms by simp
qed

lemma grid_transfer_copies:
  assumes "0 < M" and "0 < N" and "0 < TILE_M" and "0 < TILE_N"
    and "M + TILE_M - 1 \<le> INT_MAX" and "N + TILE_N - 1 \<le> INT_MAX"
    and "length src = nat (M * N)" and "length dst = nat (M * N)"
  shows "grid_transfer (nat M, nat N) (nat TILE_M, nat TILE_N) src (gridDim_of TILE_M TILE_N M N) dst
         = src"
proof (rule nth_equalityI)
  show "length (grid_transfer (nat M, nat N) (nat TILE_M, nat TILE_N) src
          (gridDim_of TILE_M TILE_N M N) dst) = length src"
    using assms(7,8) by simp
next
  fix p
  assume "p < length (grid_transfer (nat M, nat N) (nat TILE_M, nat TILE_N) src
          (gridDim_of TILE_M TILE_N M N) dst)"
  then have p: "p < nat M * nat N" and pl: "p < length dst"
    using assms(1,2,8) by (simp_all add: nat_mult_distrib)
  define bi where "bi = (p div nat N) div nat TILE_M"
  define bj where "bj = (p mod nat N) div nat TILE_N"
  define b where "b = \<lparr>dim_x = bi, dim_y = bj, dim_z = 0\<rparr>"
  have tpos: "0 < nat TILE_M" "0 < nat TILE_N"
    using assms(3,4) by simp_all
  have cov: "p \<in> set (store_offsets (nat M, nat N) (nat TILE_M, nat TILE_N) (blkCoord b))"
    using store_offsets_cover[OF p tpos] by (simp add: b_def bi_def bj_def blkCoord_def)
  have "p div nat N < nat M"
    using p assms(2) by (simp add: less_mult_imp_div_less)
  then have "bi * nat TILE_M < nat M"
    unfolding bi_def using tpos(1)
    by (meson div_times_less_eq_dividend le_less_trans)
  then have x: "int bi * TILE_M < M"
    using assms(1,3) by (metis int_nat_eq less_le_not_le of_nat_less_iff of_nat_mult)
  have "p mod nat N < nat N"
    using assms(2) by simp
  then have "bj * nat TILE_N < nat N"
    unfolding bj_def using tpos(2)
    by (meson div_times_less_eq_dividend le_less_trans)
  then have y: "int bj * TILE_N < N"
    using assms(2,4) by (metis int_nat_eq less_le_not_le of_nat_less_iff of_nat_mult)
  have "b \<in> set (blocks_of (gridDim_of TILE_M TILE_N M N))"
    unfolding b_def using gridDim_of_blocks[OF assms(1-6)] x y by simp
  then show "grid_transfer (nat M, nat N) (nat TILE_M, nat TILE_N) src
          (gridDim_of TILE_M TILE_N M N) dst ! p = src ! p"
    using cov by (auto simp: grid_transfer_nth[OF pl])
qed

subsection \<open>The runs of a block\<close>

lemma is_leader_iff: "is_leader c t \<longleftrightarrow> t = leader c \<and> leader c < 32"
proof
  assume "is_leader c t"
  then have "t div 32 = 0" and e: "t mod 32 = u_elected c (t div 32)"
    by (simp_all add: is_leader_def canonical_warp_idx_sync_def elect_one_sync_def)
  then have "t < 32" by (simp add: div_eq_0_iff)
  then show "t = leader c \<and> leader c < 32"
    using e \<open>t div 32 = 0\<close> by (simp add: leader_def)
next
  assume "t = leader c \<and> leader c < 32"
  then show "is_leader c t"
    by (simp add: is_leader_def canonical_warp_idx_sync_def elect_one_sync_def leader_def)
qed

lemma program_split:
  "program c t =
     (if is_leader c t
      then [prefetch_tma_descriptor_load, prefetch_tma_descriptor_store, mbarrier_init 1,
            mbarrier_arrive_and_expect_tx (kTmaTransactionBytes (u_tileShape c)),
            copy_tmaLoad (blkCoord (u_blockIdx c)), syncthreads, mbarrier_wait 0,
            fence_view_async_shared, copy_tmaStore (blkCoord (u_blockIdx c))]
      else [syncthreads, mbarrier_wait 0, fence_view_async_shared])"
  by (simp add: program_def copyTMAKernel_def is_leader_def Let_def)

lemma program_leader:
  "leader c < 32 \<Longrightarrow> program c (leader c) =
     [prefetch_tma_descriptor_load, prefetch_tma_descriptor_store, mbarrier_init 1,
      mbarrier_arrive_and_expect_tx (kTmaTransactionBytes (u_tileShape c)),
      copy_tmaLoad (blkCoord (u_blockIdx c)), syncthreads, mbarrier_wait 0,
      fence_view_async_shared, copy_tmaStore (blkCoord (u_blockIdx c))]"
  by (simp add: program_split is_leader_iff)

lemma program_follower:
  "t \<noteq> leader c \<Longrightarrow> program c t = [syncthreads, mbarrier_wait 0, fence_view_async_shared]"
  by (simp add: program_split is_leader_iff)

lemma milestones_append: "milestones c (xs @ ys) = milestones c xs @ milestones c ys"
  by (simp add: milestones_def map_filter_def)

lemma milestones_Nil: "milestones c [] = []"
  by (simp add: milestones_def map_filter_def)

lemma milestones_single:
  "milestones c [e] = (case milestone_of c e of None \<Rightarrow> [] | Some m \<Rightarrow> [m])"
  by (simp add: milestones_def map_filter_def split: option.splits)

lemma nth_9_cases:
  assumes "(k::nat) < 9"
  obtains "k = 0" | "k = 1" | "k = 2" | "k = 3" | "k = 4" | "k = 5" | "k = 6" | "k = 7" | "k = 8"
  using assms by linarith

lemma unit_inv_init:
  assumes "well_formed c"
  shows "unit_inv c smem0 dst0 (init_unit c smem0 dst0)"
  using assms
  by (simp add: unit_inv_def init_unit_def Let_def well_formed_def leader_def[symmetric]
      load_done_def store_done_def bar_at_def ms_at_def milestones_Nil)

lemma load_done_simps [simp]:
  "load_done (s\<lparr>pc := p\<rparr>) = load_done s"
  "load_done (s\<lparr>trace := tr\<rparr>) = load_done s"
  "load_done (s\<lparr>sS := sm\<rparr>) = load_done s"
  "load_done (s\<lparr>gD := d\<rparr>) = load_done s"
  "load_done (s\<lparr>load_inflight := li\<rparr>) = load_done s"
  "load_done (s\<lparr>store_inflight := si\<rparr>) = load_done s"
  "load_done (s\<lparr>mbarrier := Some m\<rparr>) = (phase m = 1)"
  by (simp_all add: load_done_def)

lemma inv_thread_leader:
  assumes wf: "well_formed c" and pos: "0 < size_shape (u_tileShape c)"
    and inv: "unit_inv c smem0 dst0 s"
    and st: "step c (Thread (leader c)) s = Some s'"
  shows "unit_inv c smem0 dst0 s'"
proof -
  have L: "leader c < 32" "leader c < u_threads c"
    using wf by (simp_all add: well_formed_def leader_def)
  note prog = program_leader[OF L(1)]
  have bytes: "0 < kTmaTransactionBytes (u_tileShape c)"
    using pos by (simp add: kTmaTransactionBytes_def sizeof_ArrayEngine_def sizeof_Element_def)
  have len: "length (pc s) = u_threads c"
    using inv by (simp add: unit_inv_def Let_def)
  have bar: "mbarrier s = bar_at c (pc s ! leader c) (load_done s)"
    using inv by (simp add: unit_inv_def Let_def)
  note defs = unit_inv_def Let_def store_done_def bar_at_def ms_at_def
    milestones_append milestones_single nth_list_update is_leader_iff
  have "pc s ! leader c < 9"
    using st L by (simp add: step_def prog split: if_splits)
  then show ?thesis
  proof (cases rule: nth_9_cases)
    case 1
    then have s': "s' = s\<lparr>pc := (pc s)[leader c := Suc (pc s ! leader c)],
          trace := trace s @ [issued (leader c) prefetch_tma_descriptor_load]\<rparr>"
      using st L bar by (simp add: step_def prog bar_at_def)
    show ?thesis
      unfolding s' using inv 1 L len bytes by (simp add: defs)
  next
    case 2
    then have s': "s' = s\<lparr>pc := (pc s)[leader c := Suc (pc s ! leader c)],
          trace := trace s @ [issued (leader c) prefetch_tma_descriptor_store]\<rparr>"
      using st L bar by (simp add: step_def prog bar_at_def)
    show ?thesis
      unfolding s' using inv 2 L len bytes by (simp add: defs)
  next
    case 3
    then have s': "s' = s\<lparr>pc := (pc s)[leader c := Suc (pc s ! leader c)],
          trace := trace s @ [issued (leader c) (mbarrier_init 1)],
          mbarrier := Some \<lparr>arrive_count = 1, pending = 1, tx_count = 0, phase = 0\<rparr>\<rparr>"
      using st L bar by (simp add: step_def prog bar_at_def)
    show ?thesis
      unfolding s' using inv 3 L len bytes by (simp add: defs)
  next
    case 4
    then have s': "s' = s\<lparr>pc := (pc s)[leader c := Suc (pc s ! leader c)],
          trace := trace s @ [issued (leader c) (mbarrier_arrive_and_expect_tx (kTmaTransactionBytes (u_tileShape c)))],
          mbarrier := Some \<lparr>arrive_count = 1, pending = 0,
            tx_count = int (kTmaTransactionBytes (u_tileShape c)), phase = 0\<rparr>\<rparr>"
      using st L bar bytes by (auto simp: step_def prog bar_at_def completes_def phase_check_def Let_def)
    show ?thesis
      unfolding s' using inv 4 L len bytes by (simp add: defs)
  next
    case 5
    then have s': "s' = s\<lparr>pc := (pc s)[leader c := Suc (pc s ! leader c)],
          trace := trace s @ [issued (leader c) (copy_tmaLoad (blkCoord (u_blockIdx c)))],
          load_inflight := Some (blkCoord (u_blockIdx c))\<rparr>"
      using st L bar by (simp add: step_def prog bar_at_def)
    show ?thesis
      unfolding s' using inv 5 L len bytes by (simp add: defs)
  next
    case 6
    then have False
      using st L by (simp add: step_def prog)
    then show ?thesis ..
  next
    case 7
    then have w: "exec_instr (mbarrier_wait 0)
        (s\<lparr>pc := (pc s)[leader c := Suc (pc s ! leader c)],
           trace := trace s @ [issued (leader c) (mbarrier_wait 0)]\<rparr>) = Some s'"
      using st L by (simp add: step_def prog)
    then have ld: "load_done s"
      using bar 7 by (auto simp: bar_at_def split: option.splits if_splits)
    have s': "s' = s\<lparr>pc := (pc s)[leader c := Suc (pc s ! leader c)],
          trace := trace s @ [issued (leader c) (mbarrier_wait 0)]\<rparr>"
      using w by (auto split: option.splits if_splits)
    show ?thesis
      unfolding s' using inv 7 L len ld by (simp add: defs)
  next
    case 8
    then have s': "s' = s\<lparr>pc := (pc s)[leader c := Suc (pc s ! leader c)],
          trace := trace s @ [issued (leader c) fence_view_async_shared]\<rparr>"
      using st L bar by (simp add: step_def prog bar_at_def)
    show ?thesis
      unfolding s' using inv 8 L len bytes by (simp add: defs)
  next
    case 9
    then have s': "s' = s\<lparr>pc := (pc s)[leader c := Suc (pc s ! leader c)],
          trace := trace s @ [issued (leader c) (copy_tmaStore (blkCoord (u_blockIdx c)))],
          store_inflight := Some (blkCoord (u_blockIdx c))\<rparr>"
      using st L bar by (simp add: step_def prog bar_at_def)
    show ?thesis
      unfolding s' using inv 9 L len bytes by (simp add: defs)
  qed
qed

lemma inv_thread_follower:
  assumes inv: "unit_inv c smem0 dst0 s"
    and t: "t \<noteq> leader c"
    and st: "step c (Thread t) s = Some s'"
  shows "unit_inv c smem0 dst0 s'"
proof -
  note prog = program_follower[OF t]
  have tn: "t < u_threads c" and pct: "pc s ! t < 3"
    using st by (simp_all add: step_def prog split: if_splits)
  have len: "length (pc s) = u_threads c"
    using inv by (simp add: unit_inv_def Let_def)
  have bar: "mbarrier s = bar_at c (pc s ! leader c) (load_done s)"
    using inv by (simp add: unit_inv_def Let_def)
  have mine: "pc s ! t = 0 \<longleftrightarrow> pc s ! leader c \<le> 5" "2 \<le> pc s ! t \<longrightarrow> load_done s"
    using inv tn t by (simp_all add: unit_inv_def Let_def)
  note defs = unit_inv_def Let_def store_done_def bar_at_def ms_at_def
    milestones_append milestones_single nth_list_update is_leader_iff
  consider "pc s ! t = 0" | "pc s ! t = 1" | "pc s ! t = 2"
    using pct by linarith
  then show ?thesis
  proof cases
    case 1
    then have False
      using st tn by (simp add: step_def prog)
    then show ?thesis ..
  next
    case 2
    then have w: "exec_instr (mbarrier_wait 0)
        (s\<lparr>pc := (pc s)[t := Suc (pc s ! t)],
           trace := trace s @ [issued t (mbarrier_wait 0)]\<rparr>) = Some s'"
      using st tn by (simp add: step_def prog)
    have lp5: "5 < pc s ! leader c"
      using mine(1) 2 by simp
    then have ld: "load_done s"
      using w bar by (auto simp: bar_at_def split: option.splits if_splits)
    have s': "s' = s\<lparr>pc := (pc s)[t := Suc (pc s ! t)],
          trace := trace s @ [issued t (mbarrier_wait 0)]\<rparr>"
      using w by (auto split: option.splits if_splits)
    show ?thesis
      unfolding s' using inv 2 t tn len ld lp5 by (simp add: defs)
  next
    case 3
    then have s': "s' = s\<lparr>pc := (pc s)[t := Suc (pc s ! t)],
          trace := trace s @ [issued t fence_view_async_shared]\<rparr>"
      using st tn by (simp add: step_def prog)
    show ?thesis
      unfolding s' using inv 3 t tn len mine by (simp add: defs)
  qed
qed

lemma inv_sync:
  assumes wf: "well_formed c"
    and inv: "unit_inv c smem0 dst0 s"
    and st: "step c Sync s = Some s'"
  shows "unit_inv c smem0 dst0 s'"
proof -
  have L: "leader c < 32" "leader c < u_threads c"
    using wf by (simp_all add: well_formed_def leader_def)
  have len: "length (pc s) = u_threads c"
    using inv by (simp add: unit_inv_def Let_def)
  have all: "\<forall>t<u_threads c. at_syncthreads c s t"
    and s': "s' = s\<lparr>pc := map Suc (pc s), trace := trace s @ [released]\<rparr>"
    using st by (auto simp: step_def list_all_iff split: if_splits)
  have "at_syncthreads c s (leader c)"
    using all L by simp
  then have "pc s ! leader c < 9" and "program c (leader c) ! (pc s ! leader c) = syncthreads"
    by (simp_all add: at_syncthreads_def program_leader[OF L(1)])
  then have lp: "pc s ! leader c = 5"
    by (cases rule: nth_9_cases) (simp_all add: program_leader[OF L(1)])
  note defs = unit_inv_def Let_def store_done_def bar_at_def ms_at_def
    milestones_append milestones_single
  show ?thesis
    unfolding s' using inv lp L len by (simp add: defs)
qed

lemma inv_engine_load:
  assumes inv: "unit_inv c smem0 dst0 s"
    and st: "step c Engine_load s = Some s'"
  shows "unit_inv c smem0 dst0 s'"
proof -
  define blk where "blk = blkCoord (u_blockIdx c)"
  define tile where "tile = tma_load (u_gmemShape c) (u_tileShape c) (u_src c) blk"
  have bytes: "int (sizeof_Element * length tile) = int (kTmaTransactionBytes (u_tileShape c))"
    by (simp add: tile_def tma_load_def kTmaTransactionBytes_def sizeof_ArrayEngine_def)
  have fl: "load_inflight s \<noteq> None"
    using st by (auto simp: step_def split: option.splits)
  then have lp: "5 \<le> pc s ! leader c" and nld: "\<not> load_done s"
    and li: "load_inflight s = Some blk"
    using inv by (auto simp: unit_inv_def Let_def blk_def split: if_splits)
  have lp7: "pc s ! leader c < 7"
    using inv nld by (auto simp: unit_inv_def Let_def)
  have bar: "mbarrier s = Some \<lparr>arrive_count = 1, pending = 0,
                 tx_count = int (kTmaTransactionBytes (u_tileShape c)), phase = 0\<rparr>"
    using inv lp nld by (simp add: unit_inv_def Let_def bar_at_def)
  have s': "s' = s\<lparr>sS := tile, load_inflight := None,
       mbarrier := Some \<lparr>arrive_count = 1, pending = 1, tx_count = 0, phase = 1\<rparr>,
       trace := trace s @ [loaded, barrier_satisfied]\<rparr>"
    using st li bar bytes
    by (simp add: step_def Let_def phase_check_def completes_def tile_def[symmetric])
  note defs = unit_inv_def Let_def store_done_def bar_at_def ms_at_def
    milestones_append milestones_def map_filter_def
  show ?thesis
    unfolding s' using inv lp lp7 nld
    by (simp add: defs tile_def blk_def)
qed

lemma inv_engine_store:
  assumes inv: "unit_inv c smem0 dst0 s"
    and st: "step c Engine_store s = Some s'"
  shows "unit_inv c smem0 dst0 s'"
proof -
  define blk where "blk = blkCoord (u_blockIdx c)"
  define tile where "tile = tma_load (u_gmemShape c) (u_tileShape c) (u_src c) blk"
  have fl: "store_inflight s \<noteq> None"
    using st by (auto simp: step_def split: option.splits)
  then have lp: "pc s ! leader c = 9" and nsd: "\<not> store_done c s"
    and si: "store_inflight s = Some blk"
    using inv by (auto simp: unit_inv_def Let_def blk_def split: if_splits)
  have ld: "load_done s"
    using inv lp by (simp add: unit_inv_def Let_def)
  have mem: "sS s = tile" "gD s = dst0"
    using inv ld nsd by (simp_all add: unit_inv_def Let_def tile_def blk_def)
  have s': "s' = s\<lparr>gD := tma_store (u_gmemShape c) (u_tileShape c) blk tile dst0,
       store_inflight := None, trace := trace s @ [stored]\<rparr>"
    using st si mem by (simp add: step_def)
  note defs = unit_inv_def Let_def store_done_def bar_at_def ms_at_def
    milestones_append milestones_def map_filter_def
  show ?thesis
    unfolding s' using inv lp ld
    by (simp add: defs tile_def blk_def)
qed

lemma inv_step:
  assumes "well_formed c" and "0 < size_shape (u_tileShape c)"
    and "unit_inv c smem0 dst0 s" and "step c a s = Some s'"
  shows "unit_inv c smem0 dst0 s'"
proof (cases a)
  case (Thread t)
  then show ?thesis
    using assms inv_thread_leader[of c smem0 dst0 s s'] inv_thread_follower[of c smem0 dst0 s t s']
    by (cases "t = leader c") simp_all
next
  case Sync
  then show ?thesis using assms inv_sync by simp
next
  case Engine_load
  then show ?thesis using assms inv_engine_load by simp
next
  case Engine_store
  then show ?thesis using assms inv_engine_store by simp
qed

lemma inv_run:
  assumes "well_formed c" and "0 < size_shape (u_tileShape c)"
    and "unit_inv c smem0 dst0 s" and "run c sched s = Some s'"
  shows "unit_inv c smem0 dst0 s'"
  using assms(3,4)
proof (induction sched arbitrary: s)
  case Nil
  then show ?case by simp
next
  case (Cons a sched)
  then obtain s1 where "step c a s = Some s1" and "run c sched s1 = Some s'"
    by (auto split: option.splits)
  then show ?case
    using Cons.IH[of s1] inv_step[OF assms(1,2) Cons.prems(1)] by simp
qed

lemma reachable_inv:
  assumes "well_formed c" and "0 < size_shape (u_tileShape c)"
    and "run c sched (init_unit c smem0 dst0) = Some s"
  shows "unit_inv c smem0 dst0 s"
  using inv_run[OF assms(1,2) unit_inv_init[OF assms(1)] assms(3)] .

lemma reachable_milestones:
  assumes "well_formed c" and "0 < size_shape (u_tileShape c)"
    and "run c sched (init_unit c smem0 dst0) = Some s"
  shows "milestones c (trace s) = ms_at (pc s ! leader c) (load_done s)"
    and "pc s ! leader c \<le> 9"
    and "7 \<le> pc s ! leader c \<longrightarrow> load_done s"
  using reachable_inv[OF assms] by (simp_all add: unit_inv_def Let_def)

lemma ms_at_prefix:
  assumes "lp \<le> 9" and "7 \<le> lp \<longrightarrow> ld"
  shows "prefix (ms_at lp ld) [Armed, LoadIssued, BarrierSatisfied, Fenced, StoreIssued]"
  using assms by (auto simp: ms_at_def prefix_def)

lemma threads_exited_leader:
  assumes "well_formed c" and "threads_exited c s"
  shows "pc s ! leader c = 9"
proof -
  have L: "leader c < 32" "leader c < u_threads c"
    using assms(1) by (simp_all add: well_formed_def leader_def)
  then show ?thesis
    using assms(2) by (simp add: threads_exited_def list_all_iff program_leader)
qed

text \<open>Once every thread of a block has exited and the engine has nothing left to do,
  the destination is what \<open>unit_transfer\<close> says, whatever the schedule was and whatever
  the staging buffer held before.\<close>

lemma unit_result:
  assumes "well_formed c" and "0 < size_shape (u_tileShape c)"
    and "run c sched (init_unit c smem0 dst0) = Some s"
    and "threads_exited c s" and "quiescent s"
  shows "gD s = unit_transfer (u_gmemShape c) (u_tileShape c) (u_src c)
                  (blkCoord (u_blockIdx c)) dst0"
proof -
  have "pc s ! leader c = 9"
    using threads_exited_leader[OF assms(1,4)] .
  moreover have "store_inflight s = None"
    using assms(5) by (simp add: quiescent_def)
  ultimately show ?thesis
    using reachable_inv[OF assms(1-3)]
    by (simp add: unit_inv_def Let_def store_done_def unit_transfer_def)
qed

lemma unit_frame:
  assumes "well_formed c" and "0 < size_shape (u_tileShape c)"
    and "run c sched (init_unit c smem0 dst0) = Some s"
  shows "gD s = dst0 \<or> gD s = unit_transfer (u_gmemShape c) (u_tileShape c) (u_src c)
                  (blkCoord (u_blockIdx c)) dst0"
  using reachable_inv[OF assms]
  by (simp add: unit_inv_def Let_def unit_transfer_def split: if_splits)

lemma run_append:
  "run c (as @ bs) s = (case run c as s of None \<Rightarrow> None | Some s' \<Rightarrow> run c bs s')"
  by (induction as arbitrary: s) (auto split: option.splits)

lemma progress:
  assumes wf: "well_formed c" and pos: "0 < size_shape (u_tileShape c)"
    and inv: "unit_inv c smem0 dst0 s"
    and nf: "\<not> (threads_exited c s \<and> quiescent s)"
  shows "\<exists>a s'. step c a s = Some s'"
proof -
  have L: "leader c < 32" "leader c < u_threads c"
    using wf by (simp_all add: well_formed_def leader_def)
  note prog = program_leader[OF L(1)]
  have len: "length (pc s) = u_threads c" and lp9: "pc s ! leader c \<le> 9"
    and bar: "mbarrier s = bar_at c (pc s ! leader c) (load_done s)"
    and li: "load_inflight s =
        (if 5 \<le> pc s ! leader c \<and> \<not> load_done s then Some (blkCoord (u_blockIdx c)) else None)"
    and ld7: "7 \<le> pc s ! leader c \<longrightarrow> load_done s"
    and fol: "\<forall>t < u_threads c. t \<noteq> leader c \<longrightarrow>
             pc s ! t \<le> 3 \<and> (pc s ! t = 0 \<longleftrightarrow> pc s ! leader c \<le> 5)"
    using inv by (simp_all add: unit_inv_def Let_def)
  show ?thesis
  proof (cases "load_inflight s")
    case (Some blk)
    then have "mbarrier s \<noteq> None"
      using li bar by (auto simp: bar_at_def split: if_splits)
    then show ?thesis
      using Some by (auto simp: step_def Let_def intro!: exI[of _ Engine_load])
  next
    case None
    note noload = None
    show ?thesis
    proof (cases "store_inflight s")
      case (Some blk)
      then show ?thesis
        by (auto simp: step_def intro!: exI[of _ Engine_store])
    next
      case None
      then have "\<not> threads_exited c s"
        using nf noload by (simp add: quiescent_def)
      then obtain t where t: "t < u_threads c" "pc s ! t \<noteq> length (program c t)"
        by (auto simp: threads_exited_def list_all_iff)
      have ld5: "5 \<le> pc s ! leader c \<Longrightarrow> load_done s"
        using li noload by (auto split: if_splits)
      show ?thesis
      proof (cases "pc s ! leader c < 9")
        case True
        then show ?thesis
        proof (cases rule: nth_9_cases)
          case 6
          have "list_all (at_syncthreads c s) [0..<u_threads c]"
            unfolding list_all_iff
          proof
            fix u assume "u \<in> set [0..<u_threads c]"
            then have u: "u < u_threads c" by simp
            show "at_syncthreads c s u"
            proof (cases "u = leader c")
              case True
              then show ?thesis using 6 by (simp add: at_syncthreads_def prog)
            next
              case False
              then have "pc s ! u = 0" using fol u 6 by simp
              then show ?thesis
                using False by (simp add: at_syncthreads_def program_follower)
            qed
          qed
          then show ?thesis
            by (auto simp: step_def intro!: exI[of _ Sync])
        next
          case 7
          then have "load_done s" using ld5 by simp
          then show ?thesis
            using 7 L bar
            by (auto simp: step_def prog bar_at_def intro!: exI[of _ "Thread (leader c)"])
        next
          case 4
          then show ?thesis
            using L bar
            by (auto simp: step_def prog bar_at_def Let_def intro!: exI[of _ "Thread (leader c)"])
        qed (use L in \<open>auto simp: step_def prog intro!: exI[of _ "Thread (leader c)"]\<close>)
      next
        case False
        then have lp: "pc s ! leader c = 9" using lp9 by simp
        then have tl: "t \<noteq> leader c"
          using t(2) by (auto simp: prog)
        have ld: "load_done s" using ld7 lp by simp
        have "pc s ! t \<noteq> 0" "pc s ! t \<le> 3" "pc s ! t \<noteq> 3"
          using fol t tl lp by (simp_all add: program_follower)
        then consider "pc s ! t = 1" | "pc s ! t = 2"
          by linarith
        then show ?thesis
        proof cases
          case 1
          then show ?thesis
            using t(1) tl ld bar lp
            by (auto simp: step_def program_follower bar_at_def intro!: exI[of _ "Thread t"])
        next
          case 2
          then show ?thesis
            using t(1) tl
            by (auto simp: step_def program_follower intro!: exI[of _ "Thread t"])
        qed
      qed
    qed
  qed
qed

text \<open>Every move of a block raises this count, and the count is bounded: a block cannot
  run forever.\<close>

lemma sum_list_bounded: "\<forall>v\<in>set xs. v \<le> (b::nat) \<Longrightarrow> sum_list xs \<le> b * length xs"
  by (induction xs) auto

lemma work_bounded:
  assumes "well_formed c" and "unit_inv c smem0 dst0 s"
  shows "3 * sum_list (pc s) + of_bool (load_done s) + of_bool (store_done c s)
         \<le> 27 * u_threads c + 2"
proof -
  have L: "leader c < u_threads c"
    using assms(1) by (simp add: well_formed_def leader_def)
  have len: "length (pc s) = u_threads c" and lp9: "pc s ! leader c \<le> 9"
    and fol: "\<forall>t < u_threads c. t \<noteq> leader c \<longrightarrow> pc s ! t \<le> 3"
    using assms(2) by (simp_all add: unit_inv_def Let_def)
  have "\<forall>v\<in>set (pc s). v \<le> 9"
  proof
    fix v assume "v \<in> set (pc s)"
    then obtain t where "t < u_threads c" "v = pc s ! t"
      using len by (auto simp: in_set_conv_nth)
    then show "v \<le> 9"
      using lp9 fol by (cases "t = leader c") (auto dest!: spec[of _ t])
  qed
  then have "sum_list (pc s) \<le> 9 * u_threads c"
    using sum_list_bounded[of "pc s" 9] len by simp
  then show ?thesis
    by (simp add: of_bool_def)
qed

lemma work_increases:
  assumes wf: "well_formed c" and pos: "0 < size_shape (u_tileShape c)"
    and inv: "unit_inv c smem0 dst0 s"
    and st: "step c a s = Some s'"
  shows "3 * sum_list (pc s) + of_bool (load_done s) + of_bool (store_done c s)
         < 3 * sum_list (pc s') + of_bool (load_done s') + of_bool (store_done c s')"
proof -
  have inv': "unit_inv c smem0 dst0 s'"
    using inv_step[OF wf pos inv st] .
  have len: "length (pc s) = u_threads c"
    using inv by (simp add: unit_inv_def Let_def)
  have L: "leader c < u_threads c"
    using wf by (simp add: well_formed_def leader_def)
  show ?thesis
  proof (cases a)
    case (Thread t)
    then have t: "t < u_threads c"
      using st by (simp add: step_def split: if_splits)
    have "pc s' = (pc s)[t := Suc (pc s ! t)]"
    proof -
      have "\<And>i x y. exec_instr i x = Some y \<Longrightarrow> pc y = pc x"
        by (erule exec_instr.elims) (auto split: option.splits if_splits simp: Let_def)
      then show ?thesis
        using st Thread by (auto simp: step_def Let_def split: if_splits)
    qed
    then have "sum_list (pc s') = Suc (sum_list (pc s))"
      using t len by (simp add: sum_list_update)
    then show ?thesis
      by (simp add: of_bool_def)
  next
    case Sync
    then have "pc s' = map Suc (pc s)"
      using st by (auto simp: step_def split: if_splits)
    then have "sum_list (pc s') = sum_list (pc s) + u_threads c"
      using len by (simp add: sum_list_Suc)
    then show ?thesis
      using L by (simp add: of_bool_def)
  next
    case Engine_load
    then have fl: "load_inflight s \<noteq> None" and same: "pc s' = pc s"
      "store_inflight s' = store_inflight s" and gone: "load_inflight s' = None"
      using st by (auto simp: step_def Let_def split: option.splits)
    have "5 \<le> pc s ! leader c" "\<not> load_done s"
      using inv fl by (auto simp: unit_inv_def Let_def split: if_splits)
    moreover have "load_done s'"
      using inv' gone same(1) \<open>5 \<le> pc s ! leader c\<close>
      by (auto simp: unit_inv_def Let_def split: if_splits)
    ultimately show ?thesis
      using same by (simp add: store_done_def)
  next
    case Engine_store
    then have fl: "store_inflight s \<noteq> None" and same: "pc s' = pc s"
      "mbarrier s' = mbarrier s" and gone: "store_inflight s' = None"
      using st by (auto simp: step_def split: option.splits)
    have "pc s ! leader c = 9" "\<not> store_done c s"
      using inv fl by (auto simp: unit_inv_def Let_def split: if_splits)
    then show ?thesis
      using same gone by (simp add: store_done_def load_done_def)
  qed
qed

text \<open>From every state a block can reach, some schedule takes it to the end: all
  threads exited and nothing left with the engine. With \<open>progress\<close>, no wait of the
  kernel hangs.\<close>

lemma completes_from:
  assumes wf: "well_formed c" and pos: "0 < size_shape (u_tileShape c)"
    and inv: "unit_inv c smem0 dst0 s"
  shows "\<exists>sched s'. run c sched s = Some s' \<and> threads_exited c s' \<and> quiescent s'"
  using inv
proof (induction "27 * u_threads c + 2
    - (3 * sum_list (pc s) + of_bool (load_done s) + of_bool (store_done c s))"
    arbitrary: s rule: less_induct)
  case less
  show ?case
  proof (cases "threads_exited c s \<and> quiescent s")
    case True
    then show ?thesis
      by (intro exI[of _ "[]"] exI[of _ s]) simp
  next
    case False
    then obtain a s1 where st: "step c a s = Some s1"
      using progress[OF wf pos less.prems] by blast
    have inv1: "unit_inv c smem0 dst0 s1"
      using inv_step[OF wf pos less.prems st] .
    have "27 * u_threads c + 2
        - (3 * sum_list (pc s1) + of_bool (load_done s1) + of_bool (store_done c s1))
        < 27 * u_threads c + 2
        - (3 * sum_list (pc s) + of_bool (load_done s) + of_bool (store_done c s))"
      using work_increases[OF wf pos less.prems st] work_bounded[OF wf inv1] by linarith
    then obtain sched s' where "run c sched s1 = Some s'" "threads_exited c s'" "quiescent s'"
      using less.hyps[OF _ inv1] by blast
    then show ?thesis
      using st by (intro exI[of _ "a # sched"] exI[of _ s']) simp
  qed
qed

lemma block_completes:
  assumes "well_formed c" and "0 < size_shape (u_tileShape c)"
    and "run c sched (init_unit c smem0 dst0) = Some s"
  shows "\<exists>sched' s'. run c (sched @ sched') (init_unit c smem0 dst0) = Some s'
           \<and> threads_exited c s' \<and> quiescent s'
           \<and> gD s' = unit_transfer (u_gmemShape c) (u_tileShape c) (u_src c)
                        (blkCoord (u_blockIdx c)) dst0"
proof -
  obtain sched' s' where r: "run c sched' s = Some s'" and f: "threads_exited c s'" "quiescent s'"
    using completes_from[OF assms(1,2) reachable_inv[OF assms]] by blast
  have all: "run c (sched @ sched') (init_unit c smem0 dst0) = Some s'"
    using assms(3) r by (simp add: run_append)
  show ?thesis
    using all f unit_result[OF assms(1,2) all f] by blast
qed

lemma example_unit_ok:
  "well_formed example_unit" "0 < size_shape (u_tileShape example_unit)"
  by (simp_all add: well_formed_def example_unit_def size_shape_def)

subsection \<open>The order of events in a block\<close>

text \<open>
  C2, amended. In every run of a block with one elected thread in warp 0 and a tile
  of at least one element, whatever the schedule of its threads and of the engine, the
  five events come in this order, each at most once: the barrier is armed, the load is
  issued, the barrier is satisfied, the elected thread issues its fence, the store is
  issued. When all threads have exited, all five have happened; and every run can be
  continued until all threads have exited: no wait of the kernel hangs.
\<close>

theorem milestones_in_order:
  assumes "well_formed c" and "0 < size_shape (u_tileShape c)"
    and "run c sched (init_unit c smem0 dst0) = Some s"
  shows "prefix (milestones c (trace s))
           [Armed, LoadIssued, BarrierSatisfied, Fenced, StoreIssued]
       \<and> (threads_exited c s \<longrightarrow>
            milestones c (trace s) = [Armed, LoadIssued, BarrierSatisfied, Fenced, StoreIssued])
       \<and> (\<exists>sched' s'. run c (sched @ sched') (init_unit c smem0 dst0) = Some s'
                        \<and> threads_exited c s')"
proof -
  have inv: "unit_inv c smem0 dst0 s"
    using assms by (rule reachable_inv)
  then have ms: "milestones c (trace s) = ms_at (pc s ! leader c) (load_done s)"
    and lp: "pc s ! leader c \<le> 9" and ld: "7 \<le> pc s ! leader c \<longrightarrow> load_done s"
    by (simp_all add: unit_inv_def Let_def)
  have "threads_exited c s \<Longrightarrow> ms_at (pc s ! leader c) (load_done s)
      = [Armed, LoadIssued, BarrierSatisfied, Fenced, StoreIssued]"
    using threads_exited_leader[OF assms(1)] ld by (simp add: ms_at_def)
  moreover have "\<exists>sched' s'. run c (sched @ sched') (init_unit c smem0 dst0) = Some s'
                        \<and> threads_exited c s'"
    using block_completes[OF assms] by blast
  ultimately show ?thesis
    unfolding ms using ms_at_prefix[OF lp ld] by simp
qed

theorem milestones_in_order_witness:
  "\<exists>s. run example_unit example_schedule (init_unit example_unit [7, 7, 7, 7] (replicate 9 0))
         = Some s
       \<and> threads_exited example_unit s
       \<and> milestones example_unit (trace s)
          = [Armed, LoadIssued, BarrierSatisfied, Fenced, StoreIssued]"
proof -
  have "map_option (threads_exited example_unit)
      (run example_unit example_schedule (init_unit example_unit [7, 7, 7, 7] (replicate 9 0)))
      = Some True"
    by code_simp
  then obtain s where s: "run example_unit example_schedule
      (init_unit example_unit [7, 7, 7, 7] (replicate 9 0)) = Some s"
    and ex: "threads_exited example_unit s"
    by auto
  show ?thesis
    using milestones_in_order[OF example_unit_ok s] s ex by blast
qed

text \<open>
  C2, as stated, puts the issue of the load before the arming of the barrier. In this
  run of the example block the barrier is armed first.
\<close>

theorem load_is_armed_first_counterexample:
  "map_option (milestones example_unit \<circ> trace)
     (run example_unit example_schedule (init_unit example_unit [7, 7, 7, 7] (replicate 9 0)))
     = Some [Armed, LoadIssued, BarrierSatisfied, Fenced, StoreIssued]
   \<and> map_option (milestones example_unit \<circ> trace)
     (run example_unit example_schedule (init_unit example_unit [7, 7, 7, 7] (replicate 9 0)))
     \<noteq> Some [LoadIssued, Armed, BarrierSatisfied, Fenced, StoreIssued]"
  by code_simp

text \<open>
  C5. The program of the elected thread ends with the store; no thread has a
  \<open>tma_store_arrive\<close> or a \<open>tma_store_wait\<close>; in every run, once the store has been
  issued the elected thread has no operation left; and the barrier is armed at most
  once in a run (for the load, by C2), so none is armed for the store.
\<close>

theorem store_ends_the_leader:
  assumes "well_formed c" and "0 < size_shape (u_tileShape c)"
    and "run c sched (init_unit c smem0 dst0) = Some s"
  shows "(\<exists>front. program c (leader c) = front @ [copy_tmaStore (blkCoord (u_blockIdx c))])
       \<and> (\<forall>t n. tma_store_arrive \<notin> set (program c t) \<and> tma_store_wait n \<notin> set (program c t))
       \<and> (StoreIssued \<in> set (milestones c (trace s)) \<longrightarrow>
             pc s ! leader c = length (program c (leader c)))
       \<and> length (filter (\<lambda>m. m = Armed) (milestones c (trace s))) \<le> 1"
proof -
  have L: "leader c < 32"
    using assms(1) by (simp add: well_formed_def leader_def)
  note ms = reachable_milestones[OF assms]
  have "\<exists>front. program c (leader c) = front @ [copy_tmaStore (blkCoord (u_blockIdx c))]"
    by (rule exI[of _ "butlast (program c (leader c))"]) (simp add: program_leader[OF L])
  moreover have "\<forall>t n. tma_store_arrive \<notin> set (program c t) \<and> tma_store_wait n \<notin> set (program c t)"
    by (simp add: program_split)
  moreover have "StoreIssued \<in> set (milestones c (trace s)) \<longrightarrow>
             pc s ! leader c = length (program c (leader c))"
    unfolding ms(1) by (auto simp: ms_at_def program_leader[OF L] split: if_splits)
  moreover have "length (filter (\<lambda>m. m = Armed) (milestones c (trace s))) \<le> 1"
    unfolding ms(1) by (simp add: ms_at_def)
  ultimately show ?thesis
    by blast
qed

theorem store_ends_the_leader_witness:
  "\<exists>s. run example_unit (butlast example_schedule)
           (init_unit example_unit [7, 7, 7, 7] (replicate 9 0)) = Some s
       \<and> threads_exited example_unit s
       \<and> store_inflight s = Some (1, 0)
       \<and> StoreIssued \<in> set (milestones example_unit (trace s))
       \<and> pc s ! leader example_unit = length (program example_unit (leader example_unit))"
proof -
  have "map_option (\<lambda>s. (threads_exited example_unit s, store_inflight s,
           StoreIssued \<in> set (milestones example_unit (trace s))))
      (run example_unit (butlast example_schedule)
         (init_unit example_unit [7, 7, 7, 7] (replicate 9 0)))
      = Some (True, Some (1, 0), True)"
    by code_simp
  then obtain s where s: "run example_unit (butlast example_schedule)
      (init_unit example_unit [7, 7, 7, 7] (replicate 9 0)) = Some s"
    and ex: "threads_exited example_unit s" "store_inflight s = Some (1, 0)"
      "StoreIssued \<in> set (milestones example_unit (trace s))"
    by auto
  show ?thesis
    using store_ends_the_leader[OF example_unit_ok s] s ex by blast
qed

subsection \<open>Tiles do not overlap\<close>

text \<open>
  C8. The store of the block at tile coordinate \<open>blk\<close> writes only offsets of the
  destination that belong to its own tile, and leaves every other element of the
  destination as it was; the bytes written for two different tile coordinates are
  disjoint. In a run of the block, whatever the schedule, the destination differs from
  the initial one at most at those offsets. The source is no part of the state a block
  changes: the load reads it and nothing writes it.
\<close>

theorem units_write_only_their_tile:
  "set (store_offsets (M, N) (TM, TN) blk) \<subseteq> tile_region (M, N) (TM, TN) blk
   \<and> length (unit_transfer (M, N) (TM, TN) src blk dst) = length dst
   \<and> (\<forall>p < length dst. p \<notin> set (store_offsets (M, N) (TM, TN) blk) \<longrightarrow>
         unit_transfer (M, N) (TM, TN) src blk dst ! p = dst ! p)
   \<and> (blk \<noteq> blk' \<longrightarrow>
         store_bytes (M, N) (TM, TN) blk \<inter> store_bytes (M, N) (TM, TN) blk' = {})
   \<and> (\<forall>c sched smem0 dst0 s.
         well_formed c \<and> 0 < size_shape (u_tileShape c)
         \<and> run c sched (init_unit c smem0 dst0) = Some s \<longrightarrow>
         length (gD s) = length dst0
         \<and> (\<forall>p < length dst0.
               p \<notin> set (store_offsets (u_gmemShape c) (u_tileShape c) (blkCoord (u_blockIdx c)))
               \<longrightarrow> gD s ! p = dst0 ! p))"
proof (intro conjI allI impI)
  show "set (store_offsets (M, N) (TM, TN) blk) \<subseteq> tile_region (M, N) (TM, TN) blk"
    by (rule store_offsets_in_region)
  show "length (unit_transfer (M, N) (TM, TN) src blk dst) = length dst"
    by simp
  show "unit_transfer (M, N) (TM, TN) src blk dst ! p = dst ! p"
    if "p < length dst" "p \<notin> set (store_offsets (M, N) (TM, TN) blk)" for p
    using that by (simp add: unit_transfer_nth)
  show "store_bytes (M, N) (TM, TN) blk \<inter> store_bytes (M, N) (TM, TN) blk' = {}"
    if "blk \<noteq> blk'"
    using that by (rule store_bytes_disjoint)
next
  fix c sched smem0 dst0 s
  assume h: "well_formed c \<and> 0 < size_shape (u_tileShape c)
         \<and> run c sched (init_unit c smem0 dst0) = Some s"
  then have fr: "gD s = dst0 \<or> gD s = unit_transfer (u_gmemShape c) (u_tileShape c) (u_src c)
                  (blkCoord (u_blockIdx c)) dst0"
    using unit_frame[of c sched smem0 dst0 s] by simp
  then show "length (gD s) = length dst0"
    by auto
  fix p
  assume "p < length dst0"
    "p \<notin> set (store_offsets (u_gmemShape c) (u_tileShape c) (blkCoord (u_blockIdx c)))"
  then show "gD s ! p = dst0 ! p"
    using fr by (auto simp: unit_transfer_nth)
qed

theorem units_write_only_their_tile_witness:
  "store_bytes (3, 3) (2, 2) (1, 0) \<inter> store_bytes (3, 3) (2, 2) (1, 1) = {}
   \<and> unit_transfer (3, 3) (2, 2) [0, 1, 2, 3, 4, 5, 6, 7, 8] (1, 0) (replicate 9 0) ! 8 = 0
   \<and> (\<exists>s. run example_unit example_schedule (init_unit example_unit [7, 7, 7, 7] (replicate 9 0))
            = Some s \<and> gD s ! 8 = 0)"
proof -
  note T = units_write_only_their_tile[of 3 3 2 2 "(1, 0)" "[0, 1, 2, 3, 4, 5, 6, 7, 8]"
      "replicate 9 0" "(1, 1)"]
  have off: "store_offsets (3, 3) (2, 2) (1, 0) = [6, 7]"
    by code_simp
  have a: "store_bytes (3, 3) (2, 2) (1, 0) \<inter> store_bytes (3, 3) (2, 2) (1, 1) = {}"
    using T by simp
  have b: "unit_transfer (3, 3) (2, 2) [0, 1, 2, 3, 4, 5, 6, 7, 8] (1, 0) (replicate 9 0) ! 8 = 0"
    using T off by simp
  have "run example_unit example_schedule (init_unit example_unit [7, 7, 7, 7] (replicate 9 0))
      \<noteq> None"
    by code_simp
  then obtain s where s: "run example_unit example_schedule
      (init_unit example_unit [7, 7, 7, 7] (replicate 9 0)) = Some s"
    by auto
  have "\<forall>p < length (replicate 9 (0::int)).
      p \<notin> set (store_offsets (u_gmemShape example_unit) (u_tileShape example_unit)
                (blkCoord (u_blockIdx example_unit)))
      \<longrightarrow> gD s ! p = replicate 9 (0::int) ! p"
    using T example_unit_ok s by blast
  then have "gD s ! 8 = replicate 9 (0::int) ! 8"
    using off by (simp add: example_unit_def blkCoord_def)
  then show ?thesis
    using a b s by simp
qed

subsection \<open>A launch runs the kernel\<close>

text \<open>What \<open>execute_block\<close> returns is the end of a run.\<close>

lemma execute_block_is_run:
  "execute_block c pick fuel k s = Some s' \<Longrightarrow> \<exists>sched. run c sched s = Some s' \<and> finished c s'"
proof (induction fuel arbitrary: k s)
  case 0
  then show ?case
    by (auto split: if_splits intro: exI[of _ "[]"])
next
  case (Suc fuel)
  show ?case
  proof (cases "finished c s")
    case True
    then show ?thesis
      using Suc.prems by (auto intro: exI[of _ "[]"])
  next
    case False
    then obtain a as s1 where en: "enabled c s = a # as"
      and st: "step c ((a # as) ! (pick k mod length (a # as))) s = Some s1"
      and rest: "execute_block c pick fuel (Suc k) s1 = Some s'"
      using Suc.prems by (auto split: list.splits option.splits)
    obtain sched where "run c sched s1 = Some s'" "finished c s'"
      using Suc.IH[OF rest] by blast
    then show ?thesis
      using st by (intro exI[of _ "((a # as) ! (pick k mod length (a # as))) # sched"]) simp
  qed
qed

lemma step_in_all_actions:
  assumes "step c a s = Some s'"
  shows "a \<in> set (all_actions c)"
  using assms by (cases a) (auto simp: all_actions_def step_def split: if_splits)

text \<open>With fuel for the moves that are left, a block of one elected thread and a tile
  of at least one element finishes, whatever the device picks.\<close>

lemma execute_block_finishes:
  assumes wf: "well_formed c" and pos: "0 < size_shape (u_tileShape c)"
    and inv: "unit_inv c smem0 dst0 s"
    and fuel: "27 * u_threads c + 2
        - (3 * sum_list (pc s) + of_bool (load_done s) + of_bool (store_done c s)) \<le> fuel"
  shows "\<exists>s'. execute_block c pick fuel k s = Some s'"
  using inv fuel
proof (induction fuel arbitrary: k s)
  case 0
  have "finished c s"
  proof (rule ccontr)
    assume "\<not> finished c s"
    then obtain a s1 where st: "step c a s = Some s1"
      using progress[OF wf pos "0.prems"(1)] by (auto simp: finished_def)
    show False
      using work_increases[OF wf pos "0.prems"(1) st]
        work_bounded[OF wf inv_step[OF wf pos "0.prems"(1) st]] "0.prems"(2)
      by linarith
  qed
  then show ?case by simp
next
  case (Suc fuel)
  show ?case
  proof (cases "finished c s")
    case True
    then show ?thesis by simp
  next
    case False
    then obtain a0 s0 where st0: "step c a0 s = Some s0"
      using progress[OF wf pos Suc.prems(1)] by (auto simp: finished_def)
    then have "a0 \<in> set (enabled c s)"
      using step_in_all_actions[OF st0] by (simp add: enabled_def)
    then obtain a as where en: "enabled c s = a # as"
      by (cases "enabled c s") auto
    define b where "b = (a # as) ! (pick k mod length (a # as))"
    have "b \<in> set (enabled c s)"
      unfolding b_def en by (intro nth_mem) simp
    then obtain s1 where st: "step c b s = Some s1"
      by (auto simp: enabled_def)
    have inv1: "unit_inv c smem0 dst0 s1"
      using inv_step[OF wf pos Suc.prems(1) st] .
    have "27 * u_threads c + 2
        - (3 * sum_list (pc s1) + of_bool (load_done s1) + of_bool (store_done c s1)) \<le> fuel"
      using work_increases[OF wf pos Suc.prems(1) st] Suc.prems(2) by linarith
    then obtain s' where "execute_block c pick fuel (Suc k) s1 = Some s'"
      using Suc.IH[OF inv1] by blast
    then show ?thesis
      using False en st by (simp add: b_def)
  qed
qed

lemma block_ctx_well_formed:
  assumes "0 < dim_x blockDim"
  shows "well_formed (block_ctx dev tma d_S blockDim blockIdx)"
proof -
  have "0 < active_lanes (dim_x blockDim) 0" "active_lanes (dim_x blockDim) 0 \<le> 32"
    "active_lanes (dim_x blockDim) 0 \<le> dim_x blockDim"
    using assms by (simp_all add: active_lanes_def)
  moreover have "elect_lane dev 0 mod active_lanes (dim_x blockDim) 0
      < active_lanes (dim_x blockDim) 0"
    using calculation(1) by simp
  ultimately show ?thesis
    by (simp add: well_formed_def block_ctx_def)
qed

text \<open>A block of a launch leaves the destination that \<open>unit_transfer\<close> describes,
  whatever the device's schedule and whatever its shared memory held.\<close>

lemma launched_block_finishes:
  assumes "0 < dim_x blockDim" and "0 < size_shape (snd tma)"
  shows "\<exists>s sched. execute_block (block_ctx dev tma d_S blockDim blockIdx) pick
             (27 * dim_x blockDim + 2) 0
             (init_unit (block_ctx dev tma d_S blockDim blockIdx) smem0 d_D) = Some s
         \<and> run (block_ctx dev tma d_S blockDim blockIdx) sched
             (init_unit (block_ctx dev tma d_S blockDim blockIdx) smem0 d_D) = Some s
         \<and> finished (block_ctx dev tma d_S blockDim blockIdx) s"
proof -
  let ?c = "block_ctx dev tma d_S blockDim blockIdx"
  have wf: "well_formed ?c"
    using assms(1) by (rule block_ctx_well_formed)
  have pos: "0 < size_shape (u_tileShape ?c)"
    using assms(2) by (simp add: block_ctx_def)
  have n: "u_threads ?c = dim_x blockDim"
    by (simp add: block_ctx_def)
  obtain s where s: "execute_block ?c pick (27 * dim_x blockDim + 2) 0 (init_unit ?c smem0 d_D) = Some s"
    using execute_block_finishes[OF wf pos unit_inv_init[OF wf],
        where fuel = "27 * dim_x blockDim + 2" and pick = pick and k = 0
          and ?smem0.0 = smem0 and ?dst0.0 = d_D]
    by (auto simp: n)
  then show ?thesis
    using execute_block_is_run[OF s] by blast
qed

lemma launch_block_is_unit_transfer:
  assumes "0 < dim_x blockDim" and "0 < size_shape (snd tma)"
  shows "launch_block dev trial tma d_S blockDim blockIdx d_D
         = unit_transfer (fst tma) (snd tma) d_S (blkCoord blockIdx) d_D"
proof -
  let ?c = "block_ctx dev tma d_S blockDim blockIdx"
  obtain s sched where s: "execute_block ?c (scheduler dev trial blockIdx)
             (27 * dim_x blockDim + 2) 0
             (init_unit ?c (shared_residue dev trial blockIdx) d_D) = Some s"
    and r: "run ?c sched (init_unit ?c (shared_residue dev trial blockIdx) d_D) = Some s"
    and f: "finished ?c s"
    using launched_block_finishes[OF assms] by blast
  have wf: "well_formed ?c"
    using assms(1) by (rule block_ctx_well_formed)
  have pos: "0 < size_shape (u_tileShape ?c)"
    using assms(2) by (simp add: block_ctx_def)
  have n: "u_threads ?c = dim_x blockDim"
    by (simp add: block_ctx_def)
  have "gD s = unit_transfer (u_gmemShape ?c) (u_tileShape ?c) (u_src ?c)
                 (blkCoord (u_blockIdx ?c)) d_D"
    using unit_result[OF wf pos r] f by (simp add: finished_def)
  then have "gD s = unit_transfer (fst tma) (snd tma) d_S (blkCoord blockIdx) d_D"
    by (simp add: block_ctx_def)
  then show ?thesis
    unfolding launch_block_def Let_def n s by simp
qed

lemma launch_is_grid_transfer:
  assumes "0 < dim_x (block_dims p)" and "0 < size_shape (snd tma)"
  shows "launch_kernel_on_cluster dev trial p tma d_S d_D
         = grid_transfer (fst tma) (snd tma) d_S (grid_dims p) d_D"
  unfolding launch_kernel_on_cluster_def grid_transfer_def
  by (rule arg_cong[where f = "\<lambda>f. fold f _ _"])
     (auto simp: fun_eq_iff launch_block_is_unit_transfer[OF assms])

subsection \<open>The trial loop\<close>

lemma trials_all_synced:
  assumes "0 \<le> i"
    and "\<forall>j. i \<le> j \<and> j < iterations \<longrightarrow> sync_result dev (nat j) = cudaSuccess"
  shows "trials dev kern iterations i st =
     Inr (fold (\<lambda>j d. if launch_status dev j then kern j d else d)
            [nat i ..< nat iterations] (fst st),
          snd st + nat (iterations - i))"
  using assms
proof (induction dev kern iterations i st rule: trials.induct)
  case (1 dev kern iterations i st)
  show ?case
  proof (cases "i < iterations")
    case True
    then have ok: "sync_result dev (nat i) = cudaSuccess"
      using 1 by simp
    have up: "[nat i ..< nat iterations] = nat i # [nat (i + 1) ..< nat iterations]"
      using True 1(2) by (simp add: upt_conv_Cons nat_add_distrib)
    have "trials dev kern iterations i st =
        trials dev kern iterations (i + 1)
          (if launch_status dev (nat i) then kern (nat i) (fst st) else fst st, Suc (snd st))"
      using True ok by (subst trials.simps) simp
    also have "\<dots> =
        Inr (fold (\<lambda>j d. if launch_status dev j then kern j d else d)
               [nat (i + 1) ..< nat iterations]
               (if launch_status dev (nat i) then kern (nat i) (fst st) else fst st),
             Suc (snd st) + nat (iterations - (i + 1)))"
      using 1(1)[OF True] ok 1(2,3) by simp
    finally show ?thesis
      using True up by (simp add: nat_diff_distrib)
  next
    case False
    then show ?thesis
      by (subst trials.simps) simp
  qed
qed

lemma trials_first_fault:
  assumes "0 \<le> i" and "i \<le> j" and "j < iterations"
    and "sync_result dev (nat j) \<noteq> cudaSuccess"
    and "\<forall>k. i \<le> k \<and> k < j \<longrightarrow> sync_result dev (nat k) = cudaSuccess"
  shows "trials dev kern iterations i st =
     Inl (''CUDA Runtime error: '' @ cudaGetErrorString dev (sync_result dev (nat j)),
          snd st + nat (j - i) + 1)"
  using assms
proof (induction dev kern iterations i st rule: trials.induct)
  case (1 dev kern iterations i st)
  show ?case
  proof (cases "i = j")
    case True
    then show ?thesis
      using 1(2-) by (subst trials.simps) simp
  next
    case False
    then have lt: "i < j" "i < iterations"
      using 1(3,4) by auto
    then have ok: "sync_result dev (nat i) = cudaSuccess"
      using 1(6) by simp
    have "trials dev kern iterations i st =
        trials dev kern iterations (i + 1)
          (if launch_status dev (nat i) then kern (nat i) (fst st) else fst st, Suc (snd st))"
      using lt ok by (subst trials.simps) simp
    also have "\<dots> =
        Inl (''CUDA Runtime error: '' @ cudaGetErrorString dev (sync_result dev (nat j)),
             Suc (snd st) + nat (j - (i + 1)) + 1)"
      using 1(1)[OF lt(2)] ok lt 1(2-) by simp
    finally show ?thesis
      using lt by (simp add: nat_diff_distrib)
  qed
qed

lemma trials_none: "iterations \<le> i \<Longrightarrow> trials dev kern iterations i st = Inr st"
  by (subst trials.simps) simp

lemma trials_count:
  "case trials dev kern iterations i st of
     Inl (msg, k) \<Rightarrow> snd st < k
   | Inr (d, k) \<Rightarrow> snd st \<le> k \<and> (i < iterations \<longrightarrow> snd st < k)"
proof (induction dev kern iterations i st rule: trials.induct)
  case (1 dev kern iterations i st)
  show ?case
  proof (cases "i < iterations \<and> sync_result dev (nat i) = cudaSuccess")
    case True
    define st' where "st' = (if launch_status dev (nat i) then kern (nat i) (fst st) else fst st, Suc (snd st))"
    have eq: "trials dev kern iterations i st = trials dev kern iterations (i + 1) st'"
      using True unfolding st'_def by (subst trials.simps) simp
    have ih: "case trials dev kern iterations (i + 1) st' of
         Inl (msg, k) \<Rightarrow> snd st' < k
       | Inr (d, k) \<Rightarrow> snd st' \<le> k \<and> (i + 1 < iterations \<longrightarrow> snd st' < k)"
      using 1 True unfolding st'_def by simp
    have s: "snd st' = Suc (snd st)"
      by (simp add: st'_def)
    show ?thesis
    proof (cases "trials dev kern iterations (i + 1) st'")
      case (Inl a)
      then show ?thesis
        using ih s unfolding eq by (cases a) simp
    next
      case (Inr b)
      then show ?thesis
        using ih s unfolding eq by (cases b) simp
    qed
  next
    case False
    then show ?thesis
      by (subst trials.simps) (auto split: prod.splits)
  qed
qed

lemma trials_faulted:
  assumes "0 \<le> i"
    and "\<not> (\<forall>j. i \<le> j \<and> j < iterations \<longrightarrow> sync_result dev (nat j) = cudaSuccess)"
  shows "\<exists>msg k. trials dev kern iterations i st = Inl (msg, k)"
  using assms
proof (induction dev kern iterations i st rule: trials.induct)
  case (1 dev kern iterations i st)
  then obtain j where j: "i \<le> j" "j < iterations" "sync_result dev (nat j) \<noteq> cudaSuccess"
    by auto
  then have lt: "i < iterations"
    by simp
  show ?case
  proof (cases "sync_result dev (nat i) = cudaSuccess")
    case True
    then have "i \<noteq> j"
      using j(3) by auto
    then have "\<not> (\<forall>j. i + 1 \<le> j \<and> j < iterations \<longrightarrow> sync_result dev (nat j) = cudaSuccess)"
      using j by (intro notI) (auto dest: spec[of _ j])
    then have "\<exists>msg k. trials dev kern iterations (i + 1)
          (if launch_status dev (nat i) then kern (nat i) (fst st) else fst st, Suc (snd st))
        = Inl (msg, k)"
      using 1(1)[OF lt] True 1(2) by simp
    then show ?thesis
      using lt True by (subst trials.simps) simp
  next
    case False
    then show ?thesis
      using lt by (subst trials.simps) simp
  qed
qed

subsection \<open>Allocation and plan build\<close>

lemma int_mul_id: "0 \<le> a * b \<Longrightarrow> a * b \<le> INT_MAX \<Longrightarrow> int_mul a b = a * b"
  by (simp add: int_mul_def INT_MAX_def)

lemma allocated:
  assumes "0 < M" and "0 < N" and "M * N \<le> INT_MAX"
  shows "0 \<le> int_mul M N"
  using assms by (simp add: int_mul_id)

lemma unsigned_of_int_pos: "0 < v \<Longrightarrow> v \<le> INT_MAX \<Longrightarrow> 0 < unsigned_of_int v"
  using unsigned_of_int_id[of v] by simp

lemma make_tma_copy_built:
  assumes "0 < M" and "0 < N" and "0 < TILE_M" and "0 < TILE_N"
    and "descriptor_accepted dev (M, N) (TILE_M, TILE_N)"
  shows "make_tma_copy dev (M, N) (TILE_M, TILE_N)
         = Inr ((nat M, nat N), (nat TILE_M, nat TILE_N))"
  using assms by (simp add: make_tma_copy_def)

text \<open>A call whose buffers are allocated and whose plan is built runs the loop of
  trials and returns a report.\<close>

lemma host_unfolded:
  assumes "0 \<le> int_mul M N" and "make_tma_copy dev (M, N) (TILE_M, TILE_N) = Inr tma"
  shows "copy_host_tma_load_and_store_kernel barrier_bytes dev TILE_M TILE_N THREADS
           M N iterations =
      (let hS = map float_of_size_t [0..<nat (int_mul M N)];
           p = \<lparr>grid_dims = gridDim_of TILE_M TILE_N M N,
                block_dims = dim3_1 THREADS,
                cluster_dims = dim3_1 1,
                smem_size_in_bytes = smem_size barrier_bytes (snd tma)\<rparr>
       in case trials dev (\<lambda>trial. launch_kernel_on_cluster dev trial p tma hS) iterations 0
                 (replicate (nat (int_mul M N)) 0, 0) of
            Inl (msg, k) \<Rightarrow>
              Inr \<lparr>status = - 1, cerr = [msg], launch_params = p, launches = k,
                   h_S = hS, h_D = replicate (nat (int_mul M N)) 0, good = 0, bad = 0\<rparr>
          | Inr (d_D', k) \<Rightarrow>
              Inr \<lparr>status = 0, cerr = [], launch_params = p, launches = k,
                   h_S = hS, h_D = d_D',
                   good = fst (verify d_D' hS), bad = snd (verify d_D' hS)\<rparr>)"
  using assms by (simp add: copy_host_tma_load_and_store_kernel_def Let_def not_less)

lemma host_returns:
  assumes "0 \<le> int_mul M N" and "make_tma_copy dev (M, N) (TILE_M, TILE_N) = Inr tma"
  shows "\<exists>r. copy_host_tma_load_and_store_kernel barrier_bytes dev TILE_M TILE_N THREADS
               M N iterations = Inr r
            \<and> (status r = 0 \<or> status r = - 1)
            \<and> (0 < iterations \<longrightarrow> 0 < launches r)
            \<and> launch_params r =
                \<lparr>grid_dims = gridDim_of TILE_M TILE_N M N,
                 block_dims = dim3_1 THREADS,
                 cluster_dims = dim3_1 1,
                 smem_size_in_bytes = smem_size barrier_bytes (snd tma)\<rparr>"
proof -
  define hS where "hS = map float_of_size_t [0..<nat (int_mul M N)]"
  define p where "p = \<lparr>grid_dims = gridDim_of TILE_M TILE_N M N,
                 block_dims = dim3_1 THREADS,
                 cluster_dims = dim3_1 1,
                 smem_size_in_bytes = smem_size barrier_bytes (snd tma)\<rparr>"
  define t where "t = trials dev (\<lambda>trial. launch_kernel_on_cluster dev trial p tma hS)
     iterations 0 (replicate (nat (int_mul M N)) 0, 0)"
  have cnt: "case t of
     Inl (msg, k) \<Rightarrow> 0 < k
   | Inr (d, k) \<Rightarrow> 0 < iterations \<longrightarrow> 0 < k"
    using trials_count[where dev = dev and iterations = iterations and i = 0
        and st = "(replicate (nat (int_mul M N)) 0, 0)"
        and kern = "\<lambda>trial. launch_kernel_on_cluster dev trial p tma hS"]
    unfolding t_def by (auto split: sum.splits prod.splits)
  have host: "copy_host_tma_load_and_store_kernel barrier_bytes dev TILE_M TILE_N THREADS
               M N iterations =
      (case t of
         Inl (msg, k) \<Rightarrow>
           Inr \<lparr>status = - 1, cerr = [msg], launch_params = p, launches = k,
                h_S = hS, h_D = replicate (nat (int_mul M N)) 0, good = 0, bad = 0\<rparr>
       | Inr (d_D', k) \<Rightarrow>
           Inr \<lparr>status = 0, cerr = [], launch_params = p, launches = k,
                h_S = hS, h_D = d_D',
                good = fst (verify d_D' hS), bad = snd (verify d_D' hS)\<rparr>)"
    unfolding t_def p_def hS_def using host_unfolded[OF assms]
    by (simp add: Let_def)
  show ?thesis
  proof (cases t)
    case (Inl a)
    then show ?thesis
      using cnt unfolding host p_def[symmetric] by (cases a) simp
  next
    case (Inr b)
    then show ?thesis
      using cnt unfolding host p_def[symmetric] by (cases b) simp
  qed
qed

text \<open>
  What the host function computes once the buffers are allocated and the plan is built,
  for a block of at least one thread: each accepted launch is the transfer of the grid.
\<close>

lemma host_launches_grid_transfer:
  assumes "0 < M" and "0 < N" and "0 < TILE_M" and "0 < TILE_N"
    and "M * N \<le> INT_MAX" and "descriptor_accepted dev (M, N) (TILE_M, TILE_N)"
    and "0 < THREADS" and "THREADS \<le> INT_MAX"
  shows "copy_host_tma_load_and_store_kernel barrier_bytes dev TILE_M TILE_N THREADS
           M N iterations =
      (let hS = map float_of_size_t [0..<nat (M * N)];
           p = \<lparr>grid_dims = gridDim_of TILE_M TILE_N M N,
                block_dims = dim3_1 THREADS,
                cluster_dims = dim3_1 1,
                smem_size_in_bytes = smem_size barrier_bytes (nat TILE_M, nat TILE_N)\<rparr>
       in case trials dev (\<lambda>trial. grid_transfer (nat M, nat N) (nat TILE_M, nat TILE_N) hS
                                     (gridDim_of TILE_M TILE_N M N))
                 iterations 0 (replicate (nat (M * N)) 0, 0) of
            Inl (msg, k) \<Rightarrow>
              Inr \<lparr>status = - 1, cerr = [msg], launch_params = p, launches = k,
                   h_S = hS, h_D = replicate (nat (M * N)) 0, good = 0, bad = 0\<rparr>
          | Inr (d_D', k) \<Rightarrow>
              Inr \<lparr>status = 0, cerr = [], launch_params = p, launches = k,
                   h_S = hS, h_D = d_D',
                   good = fst (verify d_D' hS), bad = snd (verify d_D' hS)\<rparr>)"
proof -
  define p where "p = \<lparr>grid_dims = gridDim_of TILE_M TILE_N M N,
                block_dims = dim3_1 THREADS,
                cluster_dims = dim3_1 1,
                smem_size_in_bytes = smem_size barrier_bytes (nat TILE_M, nat TILE_N)\<rparr>"
  have mn: "int_mul M N = M * N"
    using assms(1,2,5) by (simp add: int_mul_id)
  have t: "0 < dim_x (block_dims p)"
    using unsigned_of_int_pos[OF assms(7,8)] by (simp add: p_def dim3_1_def)
  have sz: "0 < size_shape (snd ((nat M, nat N), (nat TILE_M, nat TILE_N)))"
    using assms(3,4) by (simp add: size_shape_def)
  have k: "(\<lambda>trial. launch_kernel_on_cluster dev trial p
              ((nat M, nat N), (nat TILE_M, nat TILE_N)) hS)
         = (\<lambda>trial. grid_transfer (nat M, nat N) (nat TILE_M, nat TILE_N) hS
              (gridDim_of TILE_M TILE_N M N))" for hS
    using launch_is_grid_transfer[OF t sz, of dev _ hS] by (simp add: fun_eq_iff p_def)
  show ?thesis
    unfolding host_unfolded[OF allocated[OF assms(1,2,5)] make_tma_copy_built[OF assms(1-4,6)]]
      mn Let_def snd_conv
    using k unfolding p_def by simp
qed

subsection \<open>The status returned\<close>

text \<open>
  C9. When the function reaches its loop of trials (positive extents with \<open>M * N\<close>
  within \<open>int\<close>, so that the buffers are allocated, and descriptors the engine
  accepts), it returns 0 if every \<open>cudaDeviceSynchronize\<close> of the loop succeeds, and
  writes nothing to \<open>std::cerr\<close>; if the synchronisation of some trial reports an error,
  it returns \<open>-1\<close>, which is not 0, after writing the diagnostic
  \<open>CUDA Runtime error: \<close> followed by the device's text for the first such error.
\<close>

theorem status_reports_synchronisation:
  assumes "0 < M" and "0 < N" and "0 < TILE_M" and "0 < TILE_N"
    and "M * N \<le> INT_MAX" and "descriptor_accepted dev (M, N) (TILE_M, TILE_N)"
  shows "((\<forall>j. 0 \<le> j \<and> j < iterations \<longrightarrow> sync_result dev (nat j) = cudaSuccess) \<longrightarrow>
            (\<exists>r. copy_host_tma_load_and_store_kernel barrier_bytes dev TILE_M TILE_N THREADS
                    M N iterations = Inr r
                 \<and> status r = 0 \<and> cerr r = []))
       \<and> (\<forall>j. 0 \<le> j \<and> j < iterations \<and> sync_result dev (nat j) \<noteq> cudaSuccess
               \<and> (\<forall>k. 0 \<le> k \<and> k < j \<longrightarrow> sync_result dev (nat k) = cudaSuccess) \<longrightarrow>
            (\<exists>r. copy_host_tma_load_and_store_kernel barrier_bytes dev TILE_M TILE_N THREADS
                    M N iterations = Inr r
                 \<and> status r = - 1 \<and> status r \<noteq> 0
                 \<and> cerr r = [''CUDA Runtime error: ''
                              @ cudaGetErrorString dev (sync_result dev (nat j))]))"
proof (intro conjI impI allI)
  note host = host_unfolded[OF allocated[OF assms(1,2,5)] make_tma_copy_built[OF assms(1-4,6)],
      of barrier_bytes THREADS iterations]
  {
    assume ok: "\<forall>j. 0 \<le> j \<and> j < iterations \<longrightarrow> sync_result dev (nat j) = cudaSuccess"
    show "\<exists>r. copy_host_tma_load_and_store_kernel barrier_bytes dev TILE_M TILE_N THREADS
               M N iterations = Inr r \<and> status r = 0 \<and> cerr r = []"
      unfolding host using trials_all_synced[of 0 iterations dev, OF _ ok]
      by (simp add: Let_def)
  }
  {
    fix j
    assume h: "0 \<le> j \<and> j < iterations \<and> sync_result dev (nat j) \<noteq> cudaSuccess
               \<and> (\<forall>k. 0 \<le> k \<and> k < j \<longrightarrow> sync_result dev (nat k) = cudaSuccess)"
    then have "\<And>kern st. trials dev kern iterations 0 st =
       Inl (''CUDA Runtime error: '' @ cudaGetErrorString dev (sync_result dev (nat j)),
            snd st + nat (j - 0) + 1)"
      by (intro trials_first_fault) auto
    then show "\<exists>r. copy_host_tma_load_and_store_kernel barrier_bytes dev TILE_M TILE_N THREADS
               M N iterations = Inr r \<and> status r = - 1 \<and> status r \<noteq> 0
             \<and> cerr r = [''CUDA Runtime error: ''
                          @ cudaGetErrorString dev (sync_result dev (nat j))]"
      unfolding host by (simp add: Let_def)
  }
qed

theorem status_reports_synchronisation_witness:
  "(\<exists>r. copy_host_tma_load_and_store_kernel 8 healthy_device 2 2 32 3 3 2 = Inr r
        \<and> status r = 0 \<and> cerr r = [])
   \<and> (\<exists>r. copy_host_tma_load_and_store_kernel 8 faulting_device 2 2 32 3 3 2 = Inr r
        \<and> status r = - 1 \<and> status r \<noteq> 0
        \<and> cerr r = [''CUDA Runtime error: an illegal memory access was encountered''])"
proof -
  have ok: "\<forall>j. 0 \<le> j \<and> j < (2::int) \<longrightarrow> sync_result healthy_device (nat j) = cudaSuccess"
    by (simp add: healthy_device_def cudaSuccess_def)
  have bad: "(0::int) \<le> 1 \<and> (1::int) < 2 \<and> sync_result faulting_device (nat 1) \<noteq> cudaSuccess
      \<and> (\<forall>k. 0 \<le> k \<and> k < (1::int) \<longrightarrow> sync_result faulting_device (nat k) = cudaSuccess)"
    by (auto simp: faulting_device_def healthy_device_def cudaSuccess_def)
  have pre: "(0::int) < 3" "(0::int) < 2" "(3::int) * 3 \<le> INT_MAX"
    "descriptor_accepted healthy_device (3, 3) (2, 2)"
    "descriptor_accepted faulting_device (3, 3) (2, 2)"
    by (simp_all add: INT_MAX_def healthy_device_def faulting_device_def)
  have "\<exists>r. copy_host_tma_load_and_store_kernel 8 healthy_device 2 2 32 3 3 2 = Inr r
        \<and> status r = 0 \<and> cerr r = []"
    using status_reports_synchronisation[OF pre(1) pre(1) pre(2) pre(2) pre(3) pre(4),
        of 2 8 32] ok
    by blast
  moreover have "\<exists>r. copy_host_tma_load_and_store_kernel 8 faulting_device 2 2 32 3 3 2 = Inr r
        \<and> status r = - 1 \<and> status r \<noteq> 0
        \<and> cerr r = [''CUDA Runtime error: ''
               @ cudaGetErrorString faulting_device (sync_result faulting_device (nat 1))]"
    using status_reports_synchronisation[OF pre(1) pre(1) pre(2) pre(2) pre(3) pre(5),
        of 2 8 32] bad
    by blast
  ultimately show ?thesis
    by (simp add: faulting_device_def healthy_device_def)
qed

text \<open>
  C10. When the function reaches its loop of trials and every
  \<open>cudaDeviceSynchronize\<close> of the loop succeeds, it returns 0 whatever the verification
  pass counts: the counts \<open>good\<close> and \<open>bad\<close> are not part of the status. With
  \<open>iterations \<le> 0\<close> no launch is made, the destination keeps the zeros it was created
  with, every element but the first is counted as a mismatch, and the status is still
  0.
\<close>

theorem status_ignores_verification:
  assumes "0 < M" and "0 < N" and "0 < TILE_M" and "0 < TILE_N"
    and "M * N \<le> INT_MAX" and "descriptor_accepted dev (M, N) (TILE_M, TILE_N)"
    and "\<forall>j. 0 \<le> j \<and> j < iterations \<longrightarrow> sync_result dev (nat j) = cudaSuccess"
  shows "\<exists>r. copy_host_tma_load_and_store_kernel barrier_bytes dev TILE_M TILE_N THREADS
               M N iterations = Inr r
            \<and> status r = 0
            \<and> (iterations \<le> 0 \<longrightarrow>
                 launches r = 0 \<and> h_D r = replicate (nat (M * N)) 0
                 \<and> bad r = M * N - 1 \<and> bad r < INT_MAX)"
proof -
  note host = host_unfolded[OF allocated[OF assms(1,2,5)] make_tma_copy_built[OF assms(1-4,6)],
      of barrier_bytes THREADS iterations]
  have mn: "int_mul M N = M * N" "0 < M * N"
    using assms(1,2,5) by (simp_all add: int_mul_id)
  show ?thesis
  proof (cases "iterations \<le> 0")
    case True
    have "int (nat (M * N) - 1) = M * N - 1"
      using mn(2) by simp
    then show ?thesis
      unfolding host mn using True assms(5)
      by (simp add: Let_def trials_none verify_untouched)
  next
    case False
    then show ?thesis
      unfolding host using trials_all_synced[of 0 iterations dev, OF _ assms(7)]
      by (simp add: Let_def)
  qed
qed

theorem status_ignores_verification_witness:
  "\<exists>r. copy_host_tma_load_and_store_kernel 8 healthy_device 2 2 32 3 3 0 = Inr r
      \<and> status r = 0 \<and> launches r = 0 \<and> h_D r = [0, 0, 0, 0, 0, 0, 0, 0, 0] \<and> bad r = 8"
proof -
  have pre: "(0::int) < 3" "(0::int) < 2" "(3::int) * 3 \<le> INT_MAX"
    "descriptor_accepted healthy_device (3, 3) (2, 2)"
    "\<forall>j. 0 \<le> j \<and> j < (0::int) \<longrightarrow> sync_result healthy_device (nat j) = cudaSuccess"
    by (simp_all add: INT_MAX_def healthy_device_def)
  have nine: "replicate (nat (3 * 3)) (0::Element) = [0, 0, 0, 0, 0, 0, 0, 0, 0]"
    by (simp add: numeral_eq_Suc)
  have "\<exists>r. copy_host_tma_load_and_store_kernel 8 healthy_device 2 2 32 3 3 0 = Inr r
      \<and> status r = 0 \<and> launches r = 0 \<and> h_D r = [0, 0, 0, 0, 0, 0, 0, 0, 0] \<and> bad r = 8
      \<and> bad r < INT_MAX"
    using status_ignores_verification[OF pre(1) pre(1) pre(2) pre(2) pre(3) pre(4) pre(5), of 8 32]
    unfolding nine by simp
  then show ?thesis
    by blast
qed

subsection \<open>The grid that is launched\<close>

text \<open>
  C4. For a global shape \<open>(M, N)\<close> and a tile shape \<open>(TILE_M, TILE_N)\<close> of positive
  extents (the element count \<open>M * N\<close> and the grid arithmetic staying within \<open>int\<close>)
  whose descriptors the engine accepts, the host function reaches its launches, and the
  grid it launches has \<open>ceil(M / TILE_M)\<close> by \<open>ceil(N / TILE_N)\<close> blocks, each block index
  listed once; the tile coordinate \<open>blkCoord\<close> of a block is an injective function of
  its index, and the coordinates of the blocks are exactly the tiles that overlap the
  array, so there is one block per tile.
\<close>

theorem grid_has_one_block_per_tile:
  assumes "0 < M" and "0 < N" and "0 < TILE_M" and "0 < TILE_N"
    and "M + TILE_M - 1 \<le> INT_MAX" and "N + TILE_N - 1 \<le> INT_MAX"
    and "M * N \<le> INT_MAX" and "descriptor_accepted dev (M, N) (TILE_M, TILE_N)"
  shows "\<exists>r. copy_host_tma_load_and_store_kernel barrier_bytes dev TILE_M TILE_N THREADS
               M N iterations = Inr r
      \<and> int (dim_x (grid_dims (launch_params r))) = \<lceil>real_of_int M / real_of_int TILE_M\<rceil>
      \<and> int (dim_y (grid_dims (launch_params r))) = \<lceil>real_of_int N / real_of_int TILE_N\<rceil>
      \<and> dim_z (grid_dims (launch_params r)) = 1
      \<and> int (length (blocks_of (grid_dims (launch_params r))))
          = \<lceil>real_of_int M / real_of_int TILE_M\<rceil> * \<lceil>real_of_int N / real_of_int TILE_N\<rceil>
      \<and> distinct (blocks_of (grid_dims (launch_params r)))
      \<and> inj_on blkCoord (set (blocks_of (grid_dims (launch_params r))))
      \<and> blkCoord ` set (blocks_of (grid_dims (launch_params r)))
          = {(bx, by). int bx * TILE_M < M \<and> int by * TILE_N < N}"
proof -
  define g where "g = gridDim_of TILE_M TILE_N M N"
  obtain r where r: "copy_host_tma_load_and_store_kernel barrier_bytes dev TILE_M TILE_N
      THREADS M N iterations = Inr r" and "grid_dims (launch_params r) = g"
    using host_returns[OF allocated[OF assms(1,2,7)] make_tma_copy_built[OF assms(1-4,8)],
        of barrier_bytes THREADS iterations]
    unfolding g_def by auto
  have gx: "int (dim_x g) = ceil_div M TILE_M" and gy: "int (dim_y g) = ceil_div N TILE_N"
    and gz: "dim_z g = 1"
    using gridDim_of_dims[OF assms(1-6)] by (simp_all add: g_def)
  have cx: "ceil_div M TILE_M = \<lceil>real_of_int M / real_of_int TILE_M\<rceil>"
    and cy: "ceil_div N TILE_N = \<lceil>real_of_int N / real_of_int TILE_N\<rceil>"
    using assms(1-4) by (simp_all add: ceil_div_ceiling)
  have len: "int (length (blocks_of g)) = ceil_div M TILE_M * ceil_div N TILE_N"
    by (simp add: length_blocks_of gz flip: gx gy)
  have inj: "inj_on blkCoord (set (blocks_of g))"
    by (auto simp: inj_on_def set_blocks_of gz blkCoord_def)
  have img: "blkCoord ` set (blocks_of g) = {(bx, by). int bx * TILE_M < M \<and> int by * TILE_N < N}"
  proof -
    have "\<And>bx. bx < dim_x g \<longleftrightarrow> int bx * TILE_M < M"
    proof -
      fix bx
      have "bx < dim_x g \<longleftrightarrow> int bx < \<lceil>real_of_int M / real_of_int TILE_M\<rceil>"
        unfolding gx[symmetric, unfolded cx] by simp
      then show "bx < dim_x g \<longleftrightarrow> int bx * TILE_M < M"
        by (simp only: less_ceiling_div_iff[OF assms(3)])
    qed
    moreover have "\<And>bj. bj < dim_y g \<longleftrightarrow> int bj * TILE_N < N"
    proof -
      fix bj
      have "bj < dim_y g \<longleftrightarrow> int bj < \<lceil>real_of_int N / real_of_int TILE_N\<rceil>"
        unfolding gy[symmetric, unfolded cy] by simp
      then show "bj < dim_y g \<longleftrightarrow> int bj * TILE_N < N"
        by (simp only: less_ceiling_div_iff[OF assms(4)])
    qed
    moreover have "blkCoord ` set (blocks_of g) = {(bx, by). bx < dim_x g \<and> by < dim_y g}"
    proof (intro set_eqI iffI)
      fix c assume "c \<in> {(bx, by). bx < dim_x g \<and> by < dim_y g}"
      then have "\<lparr>dim_x = fst c, dim_y = snd c, dim_z = 0\<rparr> \<in> set (blocks_of g)"
        by (auto simp: set_blocks_of gz)
      then show "c \<in> blkCoord ` set (blocks_of g)"
        by (force simp: blkCoord_def image_iff)
    qed (auto simp: set_blocks_of blkCoord_def)
    ultimately show ?thesis by simp
  qed
  note gd = \<open>grid_dims (launch_params r) = g\<close>
  show ?thesis
  proof (intro exI[of _ r] conjI)
    show "copy_host_tma_load_and_store_kernel barrier_bytes dev TILE_M TILE_N THREADS
            M N iterations = Inr r"
      by (fact r)
    show "int (dim_x (grid_dims (launch_params r))) = \<lceil>real_of_int M / real_of_int TILE_M\<rceil>"
      unfolding gd gx cx ..
    show "int (dim_y (grid_dims (launch_params r))) = \<lceil>real_of_int N / real_of_int TILE_N\<rceil>"
      unfolding gd gy cy ..
    show "dim_z (grid_dims (launch_params r)) = 1"
      unfolding gd by (fact gz)
    show "int (length (blocks_of (grid_dims (launch_params r))))
          = \<lceil>real_of_int M / real_of_int TILE_M\<rceil> * \<lceil>real_of_int N / real_of_int TILE_N\<rceil>"
      unfolding gd len cx cy ..
    show "distinct (blocks_of (grid_dims (launch_params r)))"
      by (fact distinct_blocks_of)
    show "inj_on blkCoord (set (blocks_of (grid_dims (launch_params r))))"
      unfolding gd by (fact inj)
    show "blkCoord ` set (blocks_of (grid_dims (launch_params r)))
          = {(bx, by). int bx * TILE_M < M \<and> int by * TILE_N < N}"
      unfolding gd by (fact img)
  qed
qed

theorem grid_has_one_block_per_tile_witness:
  "\<exists>r. copy_host_tma_load_and_store_kernel 8 healthy_device 128 128 32 300 200 1 = Inr r
      \<and> dim_x (grid_dims (launch_params r)) = 3
      \<and> dim_y (grid_dims (launch_params r)) = 2
      \<and> dim_z (grid_dims (launch_params r)) = 1
      \<and> length (blocks_of (grid_dims (launch_params r))) = 6"
proof -
  have pre: "(0::int) < 300" "(0::int) < 200" "(0::int) < 128"
     "(300::int) + 128 - 1 \<le> INT_MAX" "(200::int) + 128 - 1 \<le> INT_MAX"
     "(300::int) * 200 \<le> INT_MAX"
     "descriptor_accepted healthy_device (300, 200) (128, 128)"
    by (simp_all add: INT_MAX_def healthy_device_def)
  have c: "\<lceil>real_of_int 300 / real_of_int 128\<rceil> = 3" "\<lceil>real_of_int 200 / real_of_int 128\<rceil> = 2"
    by (simp_all add: ceiling_divide_eq_div)
  obtain r where r: "copy_host_tma_load_and_store_kernel 8 healthy_device 128 128 32 300 200 1 = Inr r"
    and gx: "int (dim_x (grid_dims (launch_params r))) = 3"
    and gy: "int (dim_y (grid_dims (launch_params r))) = 2"
    and gz: "dim_z (grid_dims (launch_params r)) = 1"
    and len: "int (length (blocks_of (grid_dims (launch_params r)))) = 3 * 2"
    using grid_has_one_block_per_tile[OF pre(1) pre(2) pre(3) pre(3) pre(4) pre(5) pre(6) pre(7),
        of 8 32 1, unfolded c]
    by (elim exE conjE)
  have "dim_x (grid_dims (launch_params r)) = 3" "dim_y (grid_dims (launch_params r)) = 2"
    "length (blocks_of (grid_dims (launch_params r))) = 6"
    using gx gy len by linarith+
  then show ?thesis
    using r gz by (intro exI[of _ r]) (simp only: simp_thms)
qed

subsection \<open>Non-positive dimensions\<close>

text \<open>
  C6, as stated, fails for a negative dimension: the buffers are allocated before the
  plan is built, and with \<open>M = -1\<close>, \<open>N = 5\<close> the element count is negative, so the call
  ends in the allocation of line 169, not with a configuration error.
\<close>

theorem negative_count_counterexample:
  "copy_host_tma_load_and_store_kernel 8 healthy_device 128 128 32 (- 1) 5 1 = Inl bad_alloc"
  by (simp add: copy_host_tma_load_and_store_kernel_def int_mul_def)

text \<open>
  C6, amended. A call with a non-positive dimension of the array or of the tile ends
  before the loop of trials, so before any launch: with \<open>ConfigurationError\<close> from the
  plan build, or, when the \<open>int\<close> element count \<open>M * N\<close> is negative, in the allocation
  of the buffers, which comes first.
\<close>

theorem non_positive_dimension_is_rejected:
  assumes "M \<le> 0 \<or> N \<le> 0 \<or> TILE_M \<le> 0 \<or> TILE_N \<le> 0"
  shows "copy_host_tma_load_and_store_kernel barrier_bytes dev TILE_M TILE_N THREADS
           M N iterations
         = (if int_mul M N < 0 then Inl bad_alloc else Inl ConfigurationError)"
  using assms
  by (auto simp: copy_host_tma_load_and_store_kernel_def make_tma_copy_def)

theorem non_positive_dimension_is_rejected_witness:
  "copy_host_tma_load_and_store_kernel 8 healthy_device 128 128 32 0 5 1 = Inl ConfigurationError
   \<and> copy_host_tma_load_and_store_kernel 8 healthy_device 0 128 32 256 256 1
       = Inl ConfigurationError"
proof -
  have pre: "(0::int) \<le> 0 \<or> (5::int) \<le> 0 \<or> (128::int) \<le> 0 \<or> (128::int) \<le> 0"
    "(256::int) \<le> 0 \<or> (256::int) \<le> 0 \<or> (0::int) \<le> 0 \<or> (128::int) \<le> 0"
    by simp_all
  show ?thesis
    using non_positive_dimension_is_rejected[OF pre(1), of 8 healthy_device 32 1]
      non_positive_dimension_is_rejected[OF pre(2), of 8 healthy_device 32 1]
    by (simp add: int_mul_def)
qed

subsection \<open>The copy as a whole\<close>

lemma fold_launches_fixed:
  assumes "K src = src"
  shows "fold (\<lambda>j d. if L j then K d else d) js src = src"
  using assms by (induction js) simp_all

lemma fold_launches:
  assumes "\<And>d. length d = n \<Longrightarrow> K d = src" and "length src = n"
    and "length d0 = n" and "\<exists>j\<in>set js. L j"
  shows "fold (\<lambda>j d. if L j then K d else d) js d0 = src"
  using assms(3,4)
proof (induction js arbitrary: d0)
  case Nil
  then show ?case by simp
next
  case (Cons j js)
  show ?case
  proof (cases "L j")
    case True
    then show ?thesis
      using assms(1)[OF Cons.prems(1)]
        fold_launches_fixed[where K = K and src = src and L = L and js = js, OF assms(1)[OF assms(2)]]
      by simp
  next
    case False
    then show ?thesis
      using Cons by simp
  qed
qed

lemma fold_launches_idem:
  assumes "\<And>d. K (K d) = K d" and "js \<noteq> []" and "\<forall>j\<in>set js. L j"
  shows "fold (\<lambda>j d. if L j then K d else d) js d0 = K d0"
  using assms(2,3)
proof (induction js arbitrary: d0)
  case Nil
  then show ?case by simp
next
  case (Cons j js)
  show ?case
  proof (cases "js = []")
    case True
    then show ?thesis using Cons.prems by simp
  next
    case False
    then show ?thesis
      using Cons.IH[of "K d0"] Cons.prems assms(1) by simp
  qed
qed

lemma nine_elements:
  "map float_of_size_t [0..<9] = [0, 1, 2, 3, 4, 5, 6, 7, 8]"
  "replicate 9 (0::int) = [0, 0, 0, 0, 0, 0, 0, 0, 0]"
proof -
  have "[0..<9] = [0, 1, 2, 3, 4, 5, 6, 7, 8]"
    by code_simp
  then show "map float_of_size_t [0..<9] = [0, 1, 2, 3, 4, 5, 6, 7, 8]"
    by (simp add: float_of_size_t_def)
  show "replicate 9 (0::int) = [0, 0, 0, 0, 0, 0, 0, 0, 0]"
    by code_simp
qed

text \<open>
  C1, as stated, fails: status 0 does not imply that the destination equals the
  source. With \<open>iterations = 0\<close> nothing is launched, and the function returns 0 with a
  destination of zeros, eight mismatches counted.
\<close>

theorem round_trip_identity_counterexample:
  "copy_host_tma_load_and_store_kernel 8 healthy_device 2 2 32 3 3 0 =
     Inr \<lparr>status = 0, cerr = [],
          launch_params =
            \<lparr>grid_dims = \<lparr>dim_x = 2, dim_y = 2, dim_z = 1\<rparr>,
             block_dims = \<lparr>dim_x = 32, dim_y = 1, dim_z = 1\<rparr>,
             cluster_dims = \<lparr>dim_x = 1, dim_y = 1, dim_z = 1\<rparr>,
             smem_size_in_bytes = 24\<rparr>,
          launches = 0, h_S = [0, 1, 2, 3, 4, 5, 6, 7, 8],
          h_D = [0, 0, 0, 0, 0, 0, 0, 0, 0], good = 1, bad = 8\<rparr>"
proof -
  have v: "verify (replicate 9 0) (map float_of_size_t [0..<9]) = (1, 8)"
    by (simp add: verify_untouched)
  have g: "gridDim_of 2 2 3 3 = \<lparr>dim_x = 2, dim_y = 2, dim_z = 1\<rparr>"
    "dim3_1 32 = \<lparr>dim_x = 32, dim_y = 1, dim_z = 1\<rparr>"
    "dim3_1 1 = \<lparr>dim_x = 1, dim_y = 1, dim_z = 1\<rparr>"
    "smem_size 8 (2, 2) = 24"
    by (simp_all add: gridDim_of_def ceil_div_def signed_divide_int_def dim3_2_def dim3_1_def
        unsigned_of_int_def smem_size_def sizeof_SharedStorageTMA_def sizeof_ArrayEngine_def
        sizeof_Element_def size_shape_def)
  have a: "int_mul 3 3 = 9"
    by (simp add: int_mul_def)
  have m: "make_tma_copy healthy_device (3, 3) (2, 2) = Inr ((3, 3), (2, 2))"
    by (simp add: make_tma_copy_def healthy_device_def)
  show ?thesis
    using v
    by (simp add: copy_host_tma_load_and_store_kernel_def Let_def a m g trials_none nine_elements)
qed

text \<open>
  C1, amended. For positive extents of the array and of the tile (the element count
  \<open>M * N\<close> and the grid arithmetic staying within \<open>int\<close>) whose descriptors the engine
  accepts, a block of at least one thread, at least one trial, and every launch of
  the loop accepted by the device: the function returns a status, the status is 0
  exactly when every synchronisation of the loop succeeds, and after it has returned
  status 0 the destination it copies back equals the source, element for element,
  boundary tiles included: no mismatch is counted.
\<close>

theorem round_trip_identity:
  assumes "0 < M" and "0 < N" and "0 < TILE_M" and "0 < TILE_N"
    and "M + TILE_M - 1 \<le> INT_MAX" and "N + TILE_N - 1 \<le> INT_MAX"
    and "M * N \<le> INT_MAX" and "descriptor_accepted dev (M, N) (TILE_M, TILE_N)"
    and "0 < THREADS" and "THREADS \<le> INT_MAX" and "0 < iterations"
    and "\<forall>j. 0 \<le> j \<and> j < iterations \<longrightarrow> launch_status dev (nat j)"
  shows "\<exists>r. copy_host_tma_load_and_store_kernel barrier_bytes dev TILE_M TILE_N THREADS
               M N iterations = Inr r
            \<and> (status r = 0 \<longleftrightarrow>
                 (\<forall>j. 0 \<le> j \<and> j < iterations \<longrightarrow> sync_result dev (nat j) = cudaSuccess))
            \<and> (status r = 0 \<longrightarrow> h_D r = h_S r \<and> bad r = 0 \<and> good r = M * N)"
proof -
  define hS where "hS = map float_of_size_t [0..<nat (M * N)]"
  define K where "K = grid_transfer (nat M, nat N) (nat TILE_M, nat TILE_N) hS
      (gridDim_of TILE_M TILE_N M N)"
  define d0 :: "Element list" where "d0 = replicate (nat (M * N)) 0"
  have K: "K d = hS" if "length d = nat (M * N)" for d
    unfolding K_def using grid_transfer_copies[OF assms(1-6) _ that, of hS] by (simp add: hS_def)
  have "launch_status dev (nat 0)"
    using assms(12)[rule_format, of 0] assms(11) by simp
  moreover have "nat 0 \<in> set [nat 0 ..< nat iterations]"
    using assms(11) by simp
  ultimately have f: "fold (\<lambda>j d. if launch_status dev j then K d else d)
      [nat 0 ..< nat iterations] d0 = hS"
    by (intro fold_launches[where n = "nat (M * N)"] K) (auto simp: hS_def d0_def)
  have pos: "0 < M * N"
    using assms(1,2) by simp
  note host = host_launches_grid_transfer[OF assms(1-4,7-10), of barrier_bytes iterations]
  show ?thesis
  proof (cases "\<forall>j. 0 \<le> j \<and> j < iterations \<longrightarrow> sync_result dev (nat j) = cudaSuccess")
    case True
    then have "trials dev (\<lambda>trial. K) iterations 0 (d0, 0) = Inr (hS, nat iterations)"
      using trials_all_synced[of 0 iterations dev "\<lambda>trial. K" "(d0, 0)"] f by simp
    then show ?thesis
      unfolding host using True pos unfolding K_def hS_def d0_def
      by (simp add: Let_def verify_same)
  next
    case False
    then obtain msg k where "trials dev (\<lambda>trial. K) iterations 0 (d0, 0) = Inl (msg, k)"
      using trials_faulted[of 0 iterations dev "\<lambda>trial. K" "(d0, 0)"] by auto
    then show ?thesis
      unfolding host using False unfolding K_def hS_def d0_def
      by (simp add: Let_def)
  qed
qed

theorem round_trip_identity_witness:
  "\<exists>r. copy_host_tma_load_and_store_kernel 8 healthy_device 2 2 32 3 3 2 = Inr r
      \<and> status r = 0 \<and> h_D r = h_S r \<and> bad r = 0 \<and> good r = 9"
proof -
  have pre: "(0::int) < 3" "(0::int) < 2" "(3::int) + 2 - 1 \<le> INT_MAX"
    "(3::int) * 3 \<le> INT_MAX" "descriptor_accepted healthy_device (3, 3) (2, 2)"
    "(0::int) < 32" "(32::int) \<le> INT_MAX"
    "\<forall>j. 0 \<le> j \<and> j < (2::int) \<longrightarrow> launch_status healthy_device (nat j)"
    by (auto simp: INT_MAX_def healthy_device_def)
  have ok: "\<forall>j. 0 \<le> j \<and> j < (2::int) \<longrightarrow> sync_result healthy_device (nat j) = cudaSuccess"
    by (simp add: healthy_device_def cudaSuccess_def)
  show ?thesis
    using round_trip_identity[OF pre(1) pre(1) pre(2) pre(2) pre(3) pre(3) pre(4) pre(5)
        pre(6) pre(7) pre(2) pre(8), of 8] ok
    by auto
qed

text \<open>
  C7. For positive extents the engine accepts and a block of at least one thread, when
  every launch and every synchronisation of the loop succeeds, running
  \<open>iterations > 1\<close> trials leaves the same destination as running one. And the
  destination a block leaves does not depend on what the staging buffer held before:
  two complete runs of a block from different staging contents, under any two
  schedules, end with the same destination.
\<close>

theorem repeated_iterations_idempotent:
  assumes "0 < M" and "0 < N" and "0 < TILE_M" and "0 < TILE_N"
    and "M * N \<le> INT_MAX" and "descriptor_accepted dev (M, N) (TILE_M, TILE_N)"
    and "0 < THREADS" and "THREADS \<le> INT_MAX" and "1 < iterations"
    and "\<forall>j. 0 \<le> j \<and> j < iterations \<longrightarrow>
           sync_result dev (nat j) = cudaSuccess \<and> launch_status dev (nat j)"
  shows "(\<exists>r r1. copy_host_tma_load_and_store_kernel barrier_bytes dev TILE_M TILE_N THREADS
                   M N iterations = Inr r
               \<and> copy_host_tma_load_and_store_kernel barrier_bytes dev TILE_M TILE_N THREADS
                   M N 1 = Inr r1
               \<and> status r = 0 \<and> status r1 = 0 \<and> h_D r = h_D r1)
       \<and> (\<forall>c sched sched' smem0 smem0' dst0 s s'.
             well_formed c \<and> 0 < size_shape (u_tileShape c)
             \<and> run c sched (init_unit c smem0 dst0) = Some s
             \<and> threads_exited c s \<and> quiescent s
             \<and> run c sched' (init_unit c smem0' dst0) = Some s'
             \<and> threads_exited c s' \<and> quiescent s' \<longrightarrow> gD s = gD s')"
proof (intro conjI allI impI)
  define hS where "hS = map float_of_size_t [0..<nat (M * N)]"
  define K where "K = grid_transfer (nat M, nat N) (nat TILE_M, nat TILE_N) hS
      (gridDim_of TILE_M TILE_N M N)"
  define d0 :: "Element list" where "d0 = replicate (nat (M * N)) 0"
  have idem: "K (K d) = K d" for d
    unfolding K_def by (rule grid_transfer_idem)
  have ok: "launch_status dev j" if "j < nat iterations" for j
    using assms(10)[rule_format, of "int j"] that by simp
  have many: "fold (\<lambda>j d. if launch_status dev j then K d else d) [nat 0 ..< nat iterations] d0
      = K d0"
    using assms(9) ok by (intro fold_launches_idem idem) auto
  have one: "fold (\<lambda>j d. if launch_status dev j then K d else d) [nat 0 ..< nat 1] d0 = K d0"
    using assms(9) ok[of 0] by (intro fold_launches_idem idem) auto
  have sync1: "\<forall>j. 0 \<le> j \<and> j < (1::int) \<longrightarrow> sync_result dev (nat j) = cudaSuccess"
    using assms(9,10) by auto
  have syncn: "\<forall>j. 0 \<le> j \<and> j < iterations \<longrightarrow> sync_result dev (nat j) = cudaSuccess"
    using assms(10) by auto
  have tn: "trials dev (\<lambda>trial. K) iterations 0 (d0, 0) = Inr (K d0, nat iterations)"
    using trials_all_synced[of 0 iterations dev "\<lambda>trial. K" "(d0, 0)", OF _ syncn] many by simp
  have t1: "trials dev (\<lambda>trial. K) 1 0 (d0, 0) = Inr (K d0, nat 1)"
    using trials_all_synced[of 0 1 dev "\<lambda>trial. K" "(d0, 0)", OF _ sync1] one by simp
  show "\<exists>r r1. copy_host_tma_load_and_store_kernel barrier_bytes dev TILE_M TILE_N THREADS
                   M N iterations = Inr r
               \<and> copy_host_tma_load_and_store_kernel barrier_bytes dev TILE_M TILE_N THREADS
                   M N 1 = Inr r1
               \<and> status r = 0 \<and> status r1 = 0 \<and> h_D r = h_D r1"
    unfolding host_launches_grid_transfer[OF assms(1-8)]
    using tn t1 unfolding K_def hS_def d0_def
    by (simp add: Let_def)
next
  fix c sched sched' smem0 smem0' dst0 s s'
  assume h: "well_formed c \<and> 0 < size_shape (u_tileShape c)
             \<and> run c sched (init_unit c smem0 dst0) = Some s
             \<and> threads_exited c s \<and> quiescent s
             \<and> run c sched' (init_unit c smem0' dst0) = Some s'
             \<and> threads_exited c s' \<and> quiescent s'"
  then show "gD s = gD s'"
    using unit_result[of c sched smem0 dst0 s] unit_result[of c sched' smem0' dst0 s']
    by simp
qed

theorem repeated_iterations_idempotent_witness:
  "(\<exists>r r1. copy_host_tma_load_and_store_kernel 8 healthy_device 2 2 32 3 3 3 = Inr r
          \<and> copy_host_tma_load_and_store_kernel 8 healthy_device 2 2 32 3 3 1 = Inr r1
          \<and> status r = 0 \<and> status r1 = 0 \<and> h_D r = h_D r1)
   \<and> (\<exists>s s'. run example_unit example_schedule
                 (init_unit example_unit [7, 7, 7, 7] (replicate 9 0)) = Some s
            \<and> run example_unit example_schedule
                 (init_unit example_unit [1, 2, 3, 4] (replicate 9 0)) = Some s'
            \<and> gD s = gD s')"
proof -
  have pre: "(0::int) < 3" "(0::int) < 2" "(3::int) * 3 \<le> INT_MAX"
    "descriptor_accepted healthy_device (3, 3) (2, 2)"
    "(0::int) < 32" "(32::int) \<le> INT_MAX" "(1::int) < 3"
    "\<forall>j. 0 \<le> j \<and> j < (3::int) \<longrightarrow>
       sync_result healthy_device (nat j) = cudaSuccess \<and> launch_status healthy_device (nat j)"
    by (simp_all add: INT_MAX_def healthy_device_def cudaSuccess_def)
  note T = repeated_iterations_idempotent[OF pre(1) pre(1) pre(2) pre(2) pre(3) pre(4)
      pre(5) pre(6) pre(7) pre(8), of 8]
  have r1: "map_option (\<lambda>s. (threads_exited example_unit s, quiescent s))
      (run example_unit example_schedule (init_unit example_unit [7, 7, 7, 7] (replicate 9 0)))
      = Some (True, True)"
    by code_simp
  have r2: "map_option (\<lambda>s. (threads_exited example_unit s, quiescent s))
      (run example_unit example_schedule (init_unit example_unit [1, 2, 3, 4] (replicate 9 0)))
      = Some (True, True)"
    by code_simp
  obtain s where s: "run example_unit example_schedule
      (init_unit example_unit [7, 7, 7, 7] (replicate 9 0)) = Some s"
    "threads_exited example_unit s" "quiescent s"
    using r1 by auto
  obtain s' where s': "run example_unit example_schedule
      (init_unit example_unit [1, 2, 3, 4] (replicate 9 0)) = Some s'"
    "threads_exited example_unit s'" "quiescent s'"
    using r2 by auto
  have "gD s = gD s'"
    using T s s' example_unit_ok by blast
  then show ?thesis
    using T s(1) s'(1) by blast
qed

end
